theory Spec2Isabelle
  imports Complex_Main "HOL-Library.Option_ord" "HOL-Library.Multiset"
begin

section \<open>Tapify: the game-state engine of \<^verbatim>\<open>Tapify.py\<close>\<close>

text \<open>
  The engine of \<^verbatim>\<open>Tapify.py\<close> is embedded function by function. Conventions:
  \<^item> a \<^verbatim>\<open>datetime\<close> is the number of microseconds since the epoch in UTC (the resolution of
    Python's \<^verbatim>\<open>datetime\<close>), a \<^verbatim>\<open>date\<close> is a day number, a \<^verbatim>\<open>timedelta\<close> is a number of
    microseconds;
  \<^item> a column of a table row is an \<open>option\<close>: \<open>None\<close> is SQL \<^verbatim>\<open>NULL\<close> (Python \<^verbatim>\<open>None\<close>), and for a
    timestamp or date column also a text that \<^verbatim>\<open>fromisoformat\<close> rejects, which every function
    below treats exactly as it treats \<^verbatim>\<open>None\<close>;
  \<^item> the clock readings \<^verbatim>\<open>db_now()\<close> and \<^verbatim>\<open>time.monotonic()\<close> are arguments; the readings taken
    while one request is served are taken to be one instant;
  \<^item> the monotonic clock, a float of seconds in the source, is a real number.
\<close>

subsection \<open>Time\<close>

type_synonym datetime = int
type_synonym date = int
type_synonym timedelta = int

definition seconds :: "int \<Rightarrow> timedelta" where
  "seconds n = n * 1000000"

definition minutes :: "int \<Rightarrow> timedelta" where
  "minutes n = seconds (60 * n)"

definition days :: "int \<Rightarrow> timedelta" where
  "days n = seconds (86400 * n)"

text \<open>\<^verbatim>\<open>int(td.total_seconds())\<close>: whole seconds, truncated towards zero as Python's \<^verbatim>\<open>int\<close> does.\<close>

definition int_total_seconds :: "timedelta \<Rightarrow> int" where
  "int_total_seconds td = (if 0 \<le> td then td div 1000000 else - ((- td) div 1000000))"

text \<open>\<^verbatim>\<open>db_now().date()\<close>: the UTC calendar day of an instant.\<close>

definition date_of :: "datetime \<Rightarrow> date" where
  "date_of ts = ts div 86400000000"

subsection \<open>Tables\<close>

text \<open>
  A table is the list of its rows in insertion order; no query depends on that order, since the
  leaderboard orders its rows itself. Every table has the column \<^verbatim>\<open>chat_id\<close>;
  it is the primary key of \<^verbatim>\<open>users\<close> and \<^verbatim>\<open>game_users\<close>, whose rows are inserted only after a
  lookup has found none. The \<^verbatim>\<open>id\<close> of a \<^verbatim>\<open>game_taps\<close> row is its position in the list.
\<close>

record row =
  chat_id :: int

record named = row +
  username :: "string option"

record user = named +
  payment_status :: "string option"
  invites :: "int option"

record game_user = row +
  coins :: "int option"
  energy :: "int option"
  max_energy :: "int option"
  energy_updated_at :: "datetime option"
  multitap_until :: "datetime option"
  autotap_until :: "datetime option"
  regen_rate_seconds :: "int option"
  last_tap_at :: "datetime option"
  daily_streak :: "int option"
  last_streak_at :: "date option"

record game_tap = row +
  ts :: datetime
  delta :: int
  nonce :: string

text \<open>A row of a leaderboard answer: \<^verbatim>\<open>username\<close>, \<^verbatim>\<open>chat_id\<close>, \<^verbatim>\<open>score\<close>.\<close>

record score_row = named +
  score :: "int option"

text \<open>
  The state of the process: the three tables the engine uses, and the two module-level
  dictionaries \<^verbatim>\<open>_rate_windows\<close> and \<^verbatim>\<open>_recent_nonces\<close> (\<^verbatim>\<open>defaultdict\<close>s, hence total).
\<close>

record engine =
  users :: "user list"
  game_users :: "game_user list"
  game_taps :: "game_tap list"
  rate_windows :: "int \<Rightarrow> real list"
  recent_nonces :: "int \<Rightarrow> string set"

text \<open>\<^verbatim>\<open>int(row.get(k) or d)\<close>: Python's \<^verbatim>\<open>or\<close> replaces \<^verbatim>\<open>None\<close> and also \<^verbatim>\<open>0\<close> by the default.\<close>

definition int_or :: "int option \<Rightarrow> int \<Rightarrow> int" where
  "int_or v d = (case v of None \<Rightarrow> d | Some x \<Rightarrow> if x = 0 then d else x)"

text \<open>\<^verbatim>\<open>SELECT ... WHERE chat_id = ?\<close> followed by \<^verbatim>\<open>fetchone\<close>.\<close>

definition db_fetchone :: "int \<Rightarrow> ('a row_scheme) list \<Rightarrow> ('a row_scheme) option" where
  "db_fetchone cid tbl = find (\<lambda>r. chat_id r = cid) tbl"

definition new_game_user :: "int \<Rightarrow> datetime \<Rightarrow> game_user" where
  "new_game_user cid now =
     \<lparr>chat_id = cid, coins = Some 0, energy = Some 500, max_energy = Some 500,
      energy_updated_at = Some now, multitap_until = None, autotap_until = None,
      regen_rate_seconds = Some 3, last_tap_at = None, daily_streak = Some 0,
      last_streak_at = None\<rparr>"

definition upsert_user_if_missing :: "int \<Rightarrow> string option \<Rightarrow> datetime \<Rightarrow> engine \<Rightarrow> engine" where
  "upsert_user_if_missing cid uname now s =
     (let s1 = (if db_fetchone cid (users s) = None
                then s\<lparr>users := users s @
                       [\<lparr>chat_id = cid, username = uname, payment_status = None,
                         invites = Some 0\<rparr>]\<rparr>
                else s)
      in if db_fetchone cid (game_users s1) = None
         then s1\<lparr>game_users := game_users s1 @ [new_game_user cid now]\<rparr>
         else s1)"

text \<open>The empty dictionary \<^verbatim>\<open>{}\<close> that \<^verbatim>\<open>get_game_user\<close> returns for a row it cannot read.\<close>

definition no_row :: "int \<Rightarrow> game_user" where
  "no_row cid =
     \<lparr>chat_id = cid, coins = None, energy = None, max_energy = None,
      energy_updated_at = None, multitap_until = None, autotap_until = None,
      regen_rate_seconds = None, last_tap_at = None, daily_streak = None,
      last_streak_at = None\<rparr>"

definition get_game_user :: "int \<Rightarrow> datetime \<Rightarrow> engine \<Rightarrow> game_user \<times> engine" where
  "get_game_user cid now s =
     (case db_fetchone cid (game_users s) of
        Some r \<Rightarrow> (r, s)
      | None \<Rightarrow>
          (let s1 = upsert_user_if_missing cid None now s
           in (case db_fetchone cid (game_users s1) of Some r \<Rightarrow> r | None \<Rightarrow> no_row cid, s1)))"

text \<open>
  \<^verbatim>\<open>UPDATE game_users SET ... WHERE chat_id = ?\<close>; the dictionary of fields is the function that
  sets them in a row.
\<close>

definition update_game_user_fields ::
  "int \<Rightarrow> (game_user \<Rightarrow> game_user) \<Rightarrow> engine \<Rightarrow> engine" where
  "update_game_user_fields cid set_fields s =
     s\<lparr>game_users := map (\<lambda>r. if chat_id r = cid then set_fields r else r) (game_users s)\<rparr>"

definition coalesce :: "int option \<Rightarrow> int \<Rightarrow> int" where
  "coalesce v d = (case v of None \<Rightarrow> d | Some x \<Rightarrow> x)"

definition add_tap :: "int \<Rightarrow> int \<Rightarrow> string \<Rightarrow> datetime \<Rightarrow> engine \<Rightarrow> engine" where
  "add_tap cid d n now s =
     (let s1 = s\<lparr>game_taps := game_taps s @ [\<lparr>chat_id = cid, ts = now, delta = d, nonce = n\<rparr>]\<rparr>
      in s1\<lparr>game_users :=
            map (\<lambda>r. if chat_id r = cid
                      then r\<lparr>coins := Some (coalesce (coins r) 0 + d), last_tap_at := Some now\<rparr>
                      else r) (game_users s1)\<rparr>)"

subsection \<open>Leaderboard\<close>

text \<open>
  \<^verbatim>\<open>ORDER BY score DESC\<close> as SQLite carries it out. The rows reach the sorter in ascending
  \<^verbatim>\<open>chat_id\<close> (the rowid order of \<^verbatim>\<open>game_users\<close>, the group order of \<^verbatim>\<open>GROUP BY t.chat_id\<close>), the
  sorter keeps that order among rows of equal score, and a \<^verbatim>\<open>NULL\<close> score is below every number.
  So equal scores come out in ascending \<^verbatim>\<open>chat_id\<close>.
\<close>

definition order_by_score_desc :: "score_row list \<Rightarrow> score_row list" where
  "order_by_score_desc rows = rev (sort_key score (rev (sort_key chat_id rows)))"

text \<open>The order of a leaderboard: a higher score first, and the lower \<^verbatim>\<open>chat_id\<close> first at a tie.\<close>

definition ranks_before :: "score_row \<Rightarrow> score_row \<Rightarrow> bool" where
  "ranks_before a b \<longleftrightarrow> score b < score a \<or> (score b = score a \<and> chat_id a \<le> chat_id b)"

text \<open>\<^verbatim>\<open>LEFT JOIN users u ON u.chat_id = ...\<close>: the user's name, \<^verbatim>\<open>NULL\<close> without a \<^verbatim>\<open>users\<close> row.\<close>

definition joined_username :: "engine \<Rightarrow> int \<Rightarrow> string option" where
  "joined_username s cid = (case db_fetchone cid (users s) of None \<Rightarrow> None | Some u \<Rightarrow> username u)"

definition leaderboard :: "string \<Rightarrow> nat \<Rightarrow> datetime \<Rightarrow> engine \<Rightarrow> score_row list" where
  "leaderboard rng limit now s =
     (if rng = ''all'' then
        take limit (order_by_score_desc
          (map (\<lambda>g. \<lparr>chat_id = chat_id g, username = joined_username s (chat_id g),
                      score = coins g\<rparr>) (game_users s)))
      else
        (let since = (if rng = ''day'' then now - days 1 else now - days 7);
             in_period = filter (\<lambda>t. since \<le> ts t) (game_taps s)
         in take limit (order_by_score_desc
              (map (\<lambda>c. \<lparr>chat_id = c, username = joined_username s c,
                          score = Some (sum_list (map delta
                                    (filter (\<lambda>t. chat_id t = c) in_period)))\<rparr>)
                (remdups (map chat_id in_period))))))"

definition api_leaderboard :: "string \<Rightarrow> datetime \<Rightarrow> engine \<Rightarrow> score_row list" where
  "api_leaderboard rng now s =
     leaderboard (if rng \<in> {''day'', ''week'', ''all''} then rng else ''all'') 50 now s"

text \<open>
  The reference for the windowed score, following the spec's words and not the query: the sum of
  the deltas of an account's scoring events that occurred at or after \<open>since\<close>.
\<close>

definition window_score_spec :: "engine \<Rightarrow> datetime \<Rightarrow> int \<Rightarrow> int" where
  "window_score_spec s since cid =
     sum_list (map delta (filter (\<lambda>t. chat_id t = cid \<and> since \<le> ts t) (game_taps s)))"

subsection \<open>Admission: rate window and nonce cache\<close>

definition MAX_TAPS_PER_SEC :: nat where
  "MAX_TAPS_PER_SEC = 20"

definition RATE_WINDOW_SEC :: real where
  "RATE_WINDOW_SEC = 1"

text \<open>\<^verbatim>\<open>deque(maxlen=n).append(x)\<close>: a full deque drops its leftmost entry.\<close>

definition deque_append :: "nat \<Rightarrow> 'a list \<Rightarrow> 'a \<Rightarrow> 'a list" where
  "deque_append maxlen dq x = (if length dq < maxlen then dq @ [x] else tl dq @ [x])"

text \<open>
  \<^verbatim>\<open>_clean_old_nonces\<close>. The order in which Python lists a set is not determined by the set, so
  \<^verbatim>\<open>list(s)\<close> is the argument \<open>list_of\<close>.
\<close>

definition clean_old_nonces :: "(string set \<Rightarrow> string list) \<Rightarrow> int \<Rightarrow> engine \<Rightarrow> engine" where
  "clean_old_nonces list_of cid st =
     (let s = recent_nonces st cid
      in if card s > 200
         then st\<lparr>recent_nonces :=
                 (recent_nonces st)(cid := set (drop (length (list_of s) - 100) (list_of s)))\<rparr>
         else st)"

definition can_tap_now :: "int \<Rightarrow> real \<Rightarrow> engine \<Rightarrow> bool \<times> engine" where
  "can_tap_now cid now s =
     (let dq = dropWhile (\<lambda>t0. now - t0 > RATE_WINDOW_SEC) (rate_windows s cid)
      in if length dq \<ge> MAX_TAPS_PER_SEC
         then (False, s\<lparr>rate_windows := (rate_windows s)(cid := dq)\<rparr>)
         else (True, s\<lparr>rate_windows :=
                        (rate_windows s)(cid := deque_append (MAX_TAPS_PER_SEC * 3) dq now)\<rparr>))"

subsection \<open>Energy regeneration\<close>

definition compute_energy :: "game_user \<Rightarrow> datetime \<Rightarrow> int \<times> datetime" where
  "compute_energy user_row now =
     (let max_e = int_or (max_energy user_row) 500;
          rate = int_or (regen_rate_seconds user_row) 3;
          last = (case energy_updated_at user_row of None \<Rightarrow> now | Some raw \<Rightarrow> raw);
          stored_energy = int_or (energy user_row) 0;
          elapsed = int_total_seconds (now - last);
          regen = elapsed div (max 1 rate);
          e = min max_e (stored_energy + regen)
      in (e, if regen > 0 then last + seconds (regen * rate) else last))"

subsection \<open>Streak and boosts\<close>

definition streak_update :: "game_user \<Rightarrow> bool \<Rightarrow> datetime \<Rightarrow> int \<times> date" where
  "streak_update gu tapped_today now =
     (let today = date_of now;
          last_date = last_streak_at gu;
          streak = int_or (daily_streak gu) 0
      in if \<not> tapped_today then (streak, case last_date of None \<Rightarrow> today | Some d \<Rightarrow> d)
         else if last_date = Some (today - 1) then (streak + 1, today)
         else if last_date = Some today then (streak, today)
         else (1, today))"

definition boost_multiplier :: "game_user \<Rightarrow> datetime \<Rightarrow> int" where
  "boost_multiplier gu now =
     (let mult = 1;
          mult = (case multitap_until gu of
                    Some mt \<Rightarrow> if mt > now then max mult 2 else mult
                  | None \<Rightarrow> mult);
          mult = (case autotap_until gu of
                    Some au \<Rightarrow> if au > now then max mult 2 else mult
                  | None \<Rightarrow> mult)
      in mult)"

definition activate_boost :: "int \<Rightarrow> string \<Rightarrow> datetime \<Rightarrow> engine \<Rightarrow> (bool \<times> string) \<times> engine" where
  "activate_boost cid boost now s =
     (let (gu, s1) = get_game_user cid now s;
          c = int_or (coins gu) 0
      in if boost = ''multitap'' then
           (if c < 1000 then ((False, ''Not enough coins''), s1)
            else ((True, boost @ '' activated!''),
                  update_game_user_fields cid
                    (\<lambda>r. r\<lparr>coins := Some (c - 1000), multitap_until := Some (now + minutes 15)\<rparr>)
                    s1))
         else if boost = ''autotap'' then
           (if c < 3000 then ((False, ''Not enough coins''), s1)
            else ((True, boost @ '' activated!''),
                  update_game_user_fields cid
                    (\<lambda>r. r\<lparr>coins := Some (c - 3000), autotap_until := Some (now + minutes 10)\<rparr>)
                    s1))
         else if boost = ''maxenergy'' then
           (if c < 2500 then ((False, ''Not enough coins''), s1)
            else ((True, ''Max energy increased by +100!''),
                  update_game_user_fields cid
                    (\<lambda>r. r\<lparr>coins := Some (c - 2500),
                           max_energy := Some (int_or (max_energy gu) 500 + 100)\<rparr>)
                    s1))
         else ((False, ''Unknown boost''), s1))"

subsection \<open>Request handlers\<close>

text \<open>
  The handlers are embedded from the point where the caller has been authenticated and has
  passed the registration gate; \<open>cid\<close> is the verified \<^verbatim>\<open>chat_id\<close>. A response is the JSON
  object the handler returns.
\<close>

datatype response =
  Failed string
  | No_energy string int int int
  | Tapped int int int
  | State int int int int
  | Boosted

definition api_state :: "int \<Rightarrow> datetime \<Rightarrow> engine \<Rightarrow> response \<times> engine" where
  "api_state cid now s =
     (let (gu, s1) = get_game_user cid now s;
          (e, energy_ts) = compute_energy gu now;
          out = State (int_or (coins gu) 0) e (int_or (max_energy gu) 500)
                  (int_or (daily_streak gu) 0)
      in (out, update_game_user_fields cid
                 (\<lambda>r. r\<lparr>energy := Some e, energy_updated_at := Some energy_ts\<rparr>) s1))"

definition api_boost :: "int \<Rightarrow> string \<Rightarrow> datetime \<Rightarrow> engine \<Rightarrow> response \<times> engine" where
  "api_boost cid name now s =
     (let ((ok, msg), s1) = activate_boost cid name now s
      in (if ok then Boosted else Failed msg, s1))"

definition api_tap ::
  "int \<Rightarrow> string \<Rightarrow> datetime \<Rightarrow> real \<Rightarrow> (string set \<Rightarrow> string list) \<Rightarrow> engine
     \<Rightarrow> response \<times> engine" where
  "api_tap cid n now tick list_of s =
     (let (admitted, s1) = can_tap_now cid tick s
      in if \<not> admitted then (Failed ''Rate limited'', s1)
         else if n = [] \<or> length n > 200 then (Failed ''Bad nonce'', s1)
         else if n \<in> recent_nonces s1 cid then (Failed ''Replay blocked'', s1)
         else
           (let s2 = s1\<lparr>recent_nonces :=
                        (recent_nonces s1)(cid := insert n (recent_nonces s1 cid))\<rparr>;
                s3 = clean_old_nonces list_of cid s2;
                (gu, s4) = get_game_user cid now s3;
                (e, energy_ts) = compute_energy gu now
            in if e < 1
               then (No_energy ''No energy'' (int_or (coins gu) 0) e
                       (int_or (max_energy gu) 500), s4)
               else
                 (let mult = boost_multiplier gu now;
                      d = 1 * mult;
                      s5 = add_tap cid d n now s4;
                      s6 = update_game_user_fields cid
                             (\<lambda>r. r\<lparr>energy := Some (e - 1),
                                    energy_updated_at := Some energy_ts\<rparr>) s5;
                      (new_streak, streak_date) = streak_update gu True now;
                      s7 = update_game_user_fields cid
                             (\<lambda>r. r\<lparr>daily_streak := Some new_streak,
                                    last_streak_at := Some streak_date\<rparr>) s6;
                      (gu2, s8) = get_game_user cid now s7;
                      (energy2, ts2) = compute_energy gu2 now
                  in (Tapped (int_or (coins gu2) 0) energy2 (int_or (max_energy gu2) 500),
                      s8))))"

subsection \<open>Runs of the engine\<close>

text \<open>Successive calls of \<^verbatim>\<open>can_tap_now\<close> for one account: the answers and the final state.\<close>

fun tap_run :: "int \<Rightarrow> real list \<Rightarrow> engine \<Rightarrow> bool list \<times> engine" where
  "tap_run cid [] s = ([], s)"
| "tap_run cid (t # rest) s =
     (let (ok, s1) = can_tap_now cid t s;
          (oks, s2) = tap_run cid rest s1
      in (ok # oks, s2))"

text \<open>The timestamps of the accepted calls of a run.\<close>

definition accepted :: "real list \<Rightarrow> bool list \<Rightarrow> real list" where
  "accepted stamps oks = map fst (filter snd (zip stamps oks))"

definition engine0 :: engine where
  "engine0 = \<lparr>users = [], game_users = [], game_taps = [],
              rate_windows = (\<lambda>_. []), recent_nonces = (\<lambda>_. {})\<rparr>"

text \<open>
  The states the engine reaches from empty tables while the wall clock does not go back:
  \<open>reachable t s\<close> when \<open>s\<close> is reached at time \<open>t\<close>.
\<close>

inductive reachable :: "datetime \<Rightarrow> engine \<Rightarrow> bool" where
  start: "reachable t engine0"
| upsert: "reachable t s \<Longrightarrow> t \<le> t' \<Longrightarrow> reachable t' (upsert_user_if_missing cid uname t' s)"
| state: "reachable t s \<Longrightarrow> t \<le> t' \<Longrightarrow> reachable t' (snd (api_state cid t' s))"
| boost: "reachable t s \<Longrightarrow> t \<le> t' \<Longrightarrow> reachable t' (snd (api_boost cid name t' s))"
| tap: "reachable t s \<Longrightarrow> t \<le> t' \<Longrightarrow> reachable t' (snd (api_tap cid n t' tick list_of s))"

subsection \<open>Example states\<close>

text \<open>
  An account row with the given coins, energy and checkpoint and the defaults of a new row
  elsewhere, and the state that holds the given \<^verbatim>\<open>game_users\<close> rows and nothing else.
\<close>

definition example_row :: "int \<Rightarrow> int \<Rightarrow> int \<Rightarrow> datetime \<Rightarrow> game_user" where
  "example_row cid c e cp = (new_game_user cid cp)\<lparr>coins := Some c, energy := Some e\<rparr>"

definition engine_of :: "game_user list \<Rightarrow> engine" where
  "engine_of rows = engine0\<lparr>game_users := rows\<rparr>"

text \<open>The state in which \<open>cid\<close> has registered with the bot and has no \<^verbatim>\<open>game_users\<close> row yet.\<close>

definition signed_up :: "int \<Rightarrow> engine" where
  "signed_up cid =
     engine0\<lparr>users := [\<lparr>chat_id = cid, username = None, payment_status = Some ''registered'',
                         invites = Some 0\<rparr>]\<rparr>"

text \<open>A listing for the requests that never list a set (a cache of at most 200 entries).\<close>

definition no_listing :: "string set \<Rightarrow> string list" where
  "no_listing S = []"

text \<open>Two hundred distinct nonces: \<^verbatim>\<open>a\<close>, \<^verbatim>\<open>aa\<close>, \<^verbatim>\<open>aaa\<close> and so on.\<close>

definition two_hundred_nonces :: "string list" where
  "two_hundred_nonces = map (\<lambda>i. replicate (Suc i) CHR ''a'') [0..<200]"

subsection \<open>The data model's invariant\<close>

text \<open>
  A row is well formed at time \<open>t\<close> when none of its energy columns is \<^verbatim>\<open>NULL\<close>,
  \<open>0 \<le> energy \<le> max_energy\<close>, \<open>max_energy \<ge> 500\<close>, \<open>regen_rate_seconds \<ge> 1\<close> and the checkpoint
  is not after \<open>t\<close>.
\<close>

definition row_ok :: "datetime \<Rightarrow> game_user \<Rightarrow> bool" where
  "row_ok t r =
     (case (energy r, max_energy r, energy_updated_at r, regen_rate_seconds r) of
        (Some e, Some m, Some cp, Some rate) \<Rightarrow>
          0 \<le> e \<and> e \<le> m \<and> 500 \<le> m \<and> 1 \<le> rate \<and> cp \<le> t
      | _ \<Rightarrow> False)"

definition engine_ok :: "datetime \<Rightarrow> engine \<Rightarrow> bool" where
  "engine_ok t s =
     (distinct (map chat_id (game_users s)) \<and> list_all (row_ok t) (game_users s))"

text \<open>
  The invariant of one account's rate window after a call at time \<open>t0\<close>, against the list \<open>H\<close> of
  all timestamps accepted so far: the window holds the accepted timestamps of the last second,
  at most 20 of them, and no closed interval of one second holds more than 20 of \<open>H\<close>.
\<close>

definition window_inv :: "real list \<Rightarrow> real list \<Rightarrow> real \<Rightarrow> bool" where
  "window_inv H dq t0 \<longleftrightarrow>
     sorted H \<and> (\<forall>a \<in> set H. a \<le> t0) \<and> dq = filter (\<lambda>a. t0 - a \<le> 1) H \<and> length dq \<le> 20
     \<and> (\<forall>u. length (filter (\<lambda>a. u \<le> a \<and> a \<le> u + 1) H) \<le> 20)"

section \<open>Properties\<close>

subsection \<open>Energy regeneration\<close>

lemma int_or_Some: "x \<noteq> 0 \<Longrightarrow> int_or (Some x) d = x"
  by (simp add: int_or_def)

lemma int_or_energy: "int_or (Some x) 0 = x"
  by (simp add: int_or_def)

lemma floor_seconds_rate:
  assumes "1 \<le> (r::int)"
  shows "\<lfloor>(real_of_int d / 1000000) / real_of_int r\<rfloor> = (d div 1000000) div r"
proof -
  have "(real_of_int d / 1000000) / real_of_int r = real_of_int d / real_of_int (1000000 * r)"
    by simp
  then have "\<lfloor>(real_of_int d / 1000000) / real_of_int r\<rfloor> = d div (1000000 * r)"
    by (simp only: floor_divide_of_int_eq)
  also have "\<dots> = (d div 1000000) div r"
    using assms by (simp add: zdiv_zmult2_eq)
  finally show ?thesis .
qed

lemma compute_energy_past:
  assumes "energy_updated_at u = Some cp" and "cp \<le> now"
    and "regen_rate_seconds u = Some r" and "1 \<le> r"
    and "max_energy u = Some m" and "m \<noteq> 0" and "energy u = Some e"
  shows "compute_energy u now =
     (min m (e + ((now - cp) div 1000000) div r),
      if 0 < ((now - cp) div 1000000) div r
      then cp + (((now - cp) div 1000000) div r) * r * 1000000 else cp)"
  using assms
  by (simp add: compute_energy_def Let_def int_or_Some int_or_energy int_total_seconds_def
      seconds_def max_def)

lemma remainder_below_rate:
  assumes "1 \<le> (r::int)" and "0 \<le> d"
  shows "((d - (d div 1000000 div r) * r * 1000000) div 1000000) div r = 0"
proof -
  define q where "q = d div 1000000"
  have "d - (q div r) * r * 1000000 = d + (- ((q div r) * r)) * 1000000"
    by simp
  then have "(d - (q div r) * r * 1000000) div 1000000 = q - (q div r) * r"
    by (simp add: q_def)
  also have "\<dots> = q mod r"
    by (simp add: minus_div_mult_eq_mod)
  finally have "(d - (q div r) * r * 1000000) div 1000000 = q mod r" .
  moreover have "0 \<le> q mod r" "q mod r < r"
    using assms by simp_all
  ultimately show ?thesis
    by (simp add: q_def)
qed

text \<open>
  Claim C1. For an account whose energy checkpoint \<open>cp\<close> is not after \<open>now\<close> (with the data
  model's \<open>regen_rate_seconds \<ge> 1\<close> and a \<open>max_energy\<close> other than 0), let
  \<open>gained = floor (elapsed_seconds / regen_rate_seconds)\<close> for the exact elapsed time
  \<open>now - cp\<close>. Then \<open>compute_energy\<close> returns \<open>min max_energy (energy + gained)\<close>; the new
  checkpoint is \<open>cp + gained * regen_rate_seconds\<close> seconds when \<open>gained > 0\<close> and \<open>cp\<close> itself
  otherwise; once that result is stored, regenerating again at the same instant returns the same
  pair; and energy 10 of 500 at rate 3 with checkpoint \<open>T\<close>, read at \<open>T + 7s\<close>, gives energy 12
  and checkpoint \<open>T + 6s\<close>.
\<close>

theorem compute_energy_matches_reference:
  assumes "energy_updated_at u = Some cp" and "cp \<le> now"
    and "regen_rate_seconds u = Some r" and "1 \<le> r"
    and "max_energy u = Some m" and "m \<noteq> 0" and "energy u = Some e"
  defines "gained \<equiv> \<lfloor>(real_of_int (now - cp) / 1000000) / real_of_int r\<rfloor>"
  shows "compute_energy u now =
           (min m (e + gained), if 0 < gained then cp + seconds (gained * r) else cp)
       \<and> compute_energy
           (u\<lparr>energy := Some (fst (compute_energy u now)),
              energy_updated_at := Some (snd (compute_energy u now))\<rparr>) now
         = compute_energy u now
       \<and> compute_energy
           \<lparr>chat_id = c, coins = k, energy = Some 10, max_energy = Some 500,
            energy_updated_at = Some T, multitap_until = mu, autotap_until = au,
            regen_rate_seconds = Some 3, last_tap_at = lt, daily_streak = ds,
            last_streak_at = ls\<rparr> (T + seconds 7)
         = (12, T + seconds 6)"
proof (intro conjI)
  have g: "gained = ((now - cp) div 1000000) div r"
    unfolding gained_def using assms(4) by (rule floor_seconds_rate)
  show first: "compute_energy u now =
      (min m (e + gained), if 0 < gained then cp + seconds (gained * r) else cp)"
    using compute_energy_past [OF assms(1-7)] by (simp add: g seconds_def)
  show "compute_energy
           (u\<lparr>energy := Some (fst (compute_energy u now)),
              energy_updated_at := Some (snd (compute_energy u now))\<rparr>) now
         = compute_energy u now"
  proof (cases "0 < gained")
    case True
    let ?u' = "u\<lparr>energy := Some (min m (e + gained)),
                  energy_updated_at := Some (cp + gained * r * 1000000)\<rparr>"
    have pos: "0 \<le> now - cp" using assms(2) by simp
    have "gained * r \<le> (now - cp) div 1000000"
    proof -
      have "gained * r + ((now - cp) div 1000000) mod r = (now - cp) div 1000000"
        unfolding g by simp
      moreover have "0 \<le> ((now - cp) div 1000000) mod r"
        using assms(4) by simp
      ultimately show ?thesis by linarith
    qed
    have le: "gained * r * 1000000 \<le> now - cp"
    proof -
      have "gained * r * 1000000 \<le> ((now - cp) div 1000000) * 1000000"
        using \<open>gained * r \<le> (now - cp) div 1000000\<close> by simp
      also have "\<dots> \<le> now - cp" by simp
      finally show ?thesis .
    qed
    have cp': "cp + gained * r * 1000000 \<le> now" using le by simp
    have rest: "((now - (cp + gained * r * 1000000)) div 1000000) div r = 0"
      using remainder_below_rate [OF assms(4) pos] by (simp add: g algebra_simps)
    have "compute_energy ?u' now = (min m (e + gained), cp + gained * r * 1000000)"
      using compute_energy_past [of ?u' "cp + gained * r * 1000000" now r m "min m (e + gained)"]
        cp' assms(3-6) by (simp add: rest)
    then show ?thesis using True first by (simp add: seconds_def)
  next
    case False
    let ?u' = "u\<lparr>energy := Some (min m (e + gained)), energy_updated_at := Some cp\<rparr>"
    have z: "((now - cp) div 1000000) div r \<le> 0" using False g by simp
    have "compute_energy ?u' now =
       (min m (min m (e + gained) + ((now - cp) div 1000000) div r),
        if 0 < ((now - cp) div 1000000) div r
        then cp + (((now - cp) div 1000000) div r) * r * 1000000 else cp)"
      using compute_energy_past [of ?u' cp now r m "min m (e + gained)"] assms(2-6) by simp
    moreover have "0 \<le> ((now - cp) div 1000000) div r"
      using assms(2,4) by (simp add: pos_imp_zdiv_nonneg_iff)
    ultimately have "compute_energy ?u' now = (min m (e + gained), cp)"
      using z by simp
    then show ?thesis using False first by simp
  qed
  show "compute_energy
           \<lparr>chat_id = c, coins = k, energy = Some 10, max_energy = Some 500,
            energy_updated_at = Some T, multitap_until = mu, autotap_until = au,
            regen_rate_seconds = Some 3, last_tap_at = lt, daily_streak = ds,
            last_streak_at = ls\<rparr> (T + seconds 7)
         = (12, T + seconds 6)"
    by (simp add: compute_energy_def Let_def int_or_def int_total_seconds_def seconds_def)
qed

theorem compute_energy_matches_reference_witness:
  "compute_energy
     \<lparr>chat_id = 1, coins = Some 0, energy = Some 10, max_energy = Some 500,
      energy_updated_at = Some 0, multitap_until = None, autotap_until = None,
      regen_rate_seconds = Some 3, last_tap_at = None, daily_streak = Some 0,
      last_streak_at = None\<rparr> 7500000 = (12, 6000000)
   \<and> compute_energy
     \<lparr>chat_id = 1, coins = Some 0, energy = Some 12, max_energy = Some 500,
      energy_updated_at = Some 6000000, multitap_until = None, autotap_until = None,
      regen_rate_seconds = Some 3, last_tap_at = None, daily_streak = Some 0,
      last_streak_at = None\<rparr> 7500000 = (12, 6000000)"
proof -
  let ?u = "\<lparr>chat_id = 1, coins = Some 0, energy = Some 10, max_energy = Some 500,
      energy_updated_at = Some 0, multitap_until = None, autotap_until = None,
      regen_rate_seconds = Some 3, last_tap_at = None, daily_streak = Some 0,
      last_streak_at = None\<rparr>"
  note ref = compute_energy_matches_reference [where u = ?u and cp = 0 and now = 7500000
      and r = 3 and m = 500 and e = 10 and c = 1 and k = None and T = 0 and mu = None
      and au = None and lt = None and ds = None and ls = None]
  have first: "compute_energy ?u 7500000 = (12, 6000000)"
    using ref by (simp add: seconds_def)
  have "compute_energy (?u\<lparr>energy := Some (fst (compute_energy ?u 7500000)),
      energy_updated_at := Some (snd (compute_energy ?u 7500000))\<rparr>) 7500000
      = compute_energy ?u 7500000"
    by (rule ref [THEN conjunct2, THEN conjunct1]) simp_all
  then show ?thesis unfolding first by simp
qed

subsection \<open>Evaluation\<close>

text \<open>The defining equations that evaluate the handlers on a concrete state.\<close>

lemmas engine_eval =
  api_tap_def api_state_def api_boost_def activate_boost_def upsert_user_if_missing_def
  engine0_def can_tap_now_def Let_def db_fetchone_def MAX_TAPS_PER_SEC_def RATE_WINDOW_SEC_def
  deque_append_def clean_old_nonces_def get_game_user_def new_game_user_def compute_energy_def
  int_or_def int_total_seconds_def boost_multiplier_def add_tap_def update_game_user_fields_def
  streak_update_def date_of_def coalesce_def seconds_def minutes_def days_def
  example_row_def engine_of_def no_listing_def signed_up_def

subsection \<open>The invariant of reachable states\<close>

lemma row_okE:
  assumes "row_ok t r"
  obtains e m cp rate where "energy r = Some e" "max_energy r = Some m"
    "energy_updated_at r = Some cp" "regen_rate_seconds r = Some rate"
    "0 \<le> e" "e \<le> m" "500 \<le> m" "1 \<le> rate" "cp \<le> t"
  using assms by (auto simp: row_ok_def split: option.splits)

lemma row_ok_mono: "row_ok t r \<Longrightarrow> t \<le> t' \<Longrightarrow> row_ok t' r"
  by (erule row_okE) (simp add: row_ok_def)

lemma engine_ok_mono: "engine_ok t s \<Longrightarrow> t \<le> t' \<Longrightarrow> engine_ok t' s"
  by (auto simp: engine_ok_def list_all_iff intro: row_ok_mono)

lemma whole_intervals_elapsed:
  assumes "1 \<le> (r::int)" and "0 \<le> d"
  shows "0 \<le> d div 1000000 div r" and "d div 1000000 div r * r * 1000000 \<le> d"
proof -
  let ?q = "d div 1000000"
  have q: "0 \<le> ?q" using assms(2) by (simp add: pos_imp_zdiv_nonneg_iff)
  then show "0 \<le> ?q div r" using assms(1) by (simp add: pos_imp_zdiv_nonneg_iff)
  have "?q div r * r + ?q mod r = ?q" by simp
  moreover have "0 \<le> ?q mod r" using assms(1) by simp
  ultimately have "?q div r * r \<le> ?q" by linarith
  then have "?q div r * r * 1000000 \<le> ?q * 1000000" by simp
  also have "\<dots> \<le> d" by simp
  finally show "?q div r * r * 1000000 \<le> d" .
qed

lemma compute_energy_ok:
  assumes "row_ok t r" and "t \<le> now" and "compute_energy r now = (e', cp')"
  shows "int_or (energy r) 0 \<le> e'" and "e' \<le> int_or (max_energy r) 500" and "0 \<le> e'"
    and "cp' \<le> now"
proof -
  from assms(1) obtain e m cp rate where f: "energy r = Some e" "max_energy r = Some m"
    "energy_updated_at r = Some cp" "regen_rate_seconds r = Some rate"
    and b: "0 \<le> e" "e \<le> m" "500 \<le> m" "1 \<le> rate" "cp \<le> t"
    by (rule row_okE)
  have cpn: "cp \<le> now" using b(5) assms(2) by simp
  have m0: "m \<noteq> 0" using b(3) by simp
  note ce = compute_energy_past [OF f(3) cpn f(4) b(4) f(2) m0 f(1)]
  have d: "0 \<le> now - cp" using cpn by simp
  note w = whole_intervals_elapsed [OF b(4) d]
  from ce assms(3) have e': "e' = min m (e + (now - cp) div 1000000 div rate)"
    and cp': "cp' = (if 0 < (now - cp) div 1000000 div rate
        then cp + (now - cp) div 1000000 div rate * rate * 1000000 else cp)"
    by simp_all
  have io: "int_or (energy r) 0 = e" "int_or (max_energy r) 500 = m"
    using f m0 by (simp_all add: int_or_def)
  show "int_or (energy r) 0 \<le> e'" using e' w(1) b(2) io by simp
  show "e' \<le> int_or (max_energy r) 500" using e' io by simp
  show "0 \<le> e'" using e' w(1) b by simp
  show "cp' \<le> now" using cp' w(2) cpn by (simp split: if_splits)
qed


lemma db_fetchone_SomeD:
  "db_fetchone cid tbl = Some r \<Longrightarrow> r \<in> set tbl \<and> chat_id r = cid"
  by (auto simp: db_fetchone_def find_Some_iff)

lemma db_fetchone_None_iff: "db_fetchone cid tbl = None \<longleftrightarrow> cid \<notin> chat_id ` set tbl"
  by (auto simp: db_fetchone_def find_None_iff)

lemma db_fetchone_append_new:
  "db_fetchone cid tbl = None \<Longrightarrow> chat_id r = cid \<Longrightarrow> db_fetchone cid (tbl @ [r]) = Some r"
  by (induction tbl) (auto simp: db_fetchone_def)

lemma row_ok_new: "row_ok t (new_game_user cid t)"
  by (simp add: row_ok_def new_game_user_def)

lemma chat_id_new: "chat_id (new_game_user cid t) = cid"
  by (simp add: new_game_user_def)

lemma game_users_upsert:
  "game_users (upsert_user_if_missing cid u t s) =
     (if db_fetchone cid (game_users s) = None then game_users s @ [new_game_user cid t]
      else game_users s)"
  by (simp add: upsert_user_if_missing_def Let_def)

lemma upsert_ok:
  assumes "engine_ok t s"
  shows "engine_ok t (upsert_user_if_missing cid u t s)"
  using assms
  by (auto simp: engine_ok_def game_users_upsert db_fetchone_None_iff row_ok_new
      chat_id_new)

lemma get_game_user_ok:
  assumes "engine_ok t s" and "get_game_user cid t s = (gu, s1)"
  shows "engine_ok t s1" and "gu \<in> set (game_users s1)" and "chat_id gu = cid"
proof -
  show "engine_ok t s1"
    using assms upsert_ok [OF assms(1), of cid None]
    by (auto simp: get_game_user_def Let_def split: option.splits)
  show "gu \<in> set (game_users s1)"
    using assms(2)
    by (auto simp: get_game_user_def Let_def game_users_upsert db_fetchone_append_new
        chat_id_new dest: db_fetchone_SomeD split: option.splits)
  show "chat_id gu = cid"
    using assms(2)
    by (auto simp: get_game_user_def Let_def game_users_upsert db_fetchone_append_new
        chat_id_new dest: db_fetchone_SomeD split: option.splits)
qed

lemma unique_row:
  assumes "distinct (map chat_id tbl)" and "gu \<in> set tbl" and "r \<in> set tbl"
    and "chat_id r = chat_id gu"
  shows "r = gu"
  using assms by (meson distinct_map inj_onD)

lemma update_ok:
  assumes "engine_ok t s" and "gu \<in> set (game_users s)" and "chat_id gu = cid"
    and "row_ok t (f gu)" and "chat_id (f gu) = cid"
  shows "engine_ok t (update_game_user_fields cid f s)"
proof -
  have u: "r = gu" if "r \<in> set (game_users s)" "chat_id r = cid" for r
    using unique_row [of "game_users s" gu r] assms(1-3) that by (simp add: engine_ok_def)
  have m: "map chat_id (map (\<lambda>r. if chat_id r = cid then f r else r) (game_users s))
        = map chat_id (game_users s)"
    using u assms(5) by (auto simp: comp_def)
  have "list_all (row_ok t) (map (\<lambda>r. if chat_id r = cid then f r else r) (game_users s))"
    using u assms(1,4) by (auto simp: list_all_iff engine_ok_def)
  then show ?thesis
    using assms(1) by (simp add: engine_ok_def update_game_user_fields_def m del: map_map)
qed

lemma update_update:
  assumes "\<And>r. chat_id (f1 r) = chat_id r"
  shows "update_game_user_fields cid f2 (update_game_user_fields cid f1 s)
         = update_game_user_fields cid (f2 \<circ> f1) s"
  using assms by (simp add: update_game_user_fields_def comp_def cong: if_cong)

lemma add_tap_update:
  "add_tap cid d n now s =
     update_game_user_fields cid
       (\<lambda>r. r\<lparr>coins := Some (coalesce (coins r) 0 + d), last_tap_at := Some now\<rparr>)
       (s\<lparr>game_taps := game_taps s @ [\<lparr>chat_id = cid, ts = now, delta = d, nonce = n\<rparr>]\<rparr>)"
  by (simp add: add_tap_def update_game_user_fields_def Let_def)

lemma api_state_ok:
  assumes "engine_ok t s"
  shows "engine_ok t (snd (api_state cid t s))"
proof -
  obtain gu s1 where g: "get_game_user cid t s = (gu, s1)" by fastforce
  obtain e cp where c: "compute_energy gu t = (e, cp)" by fastforce
  note ok = get_game_user_ok [OF assms g]
  have r: "row_ok t gu" using ok(1,2) by (simp add: engine_ok_def list_all_iff)
  note b = compute_energy_ok [OF r order_refl c]
  have "row_ok t (gu\<lparr>energy := Some e, energy_updated_at := Some cp\<rparr>)"
  proof -
    from r obtain e0 m cp0 rate where "energy gu = Some e0" "max_energy gu = Some m"
      "energy_updated_at gu = Some cp0" "regen_rate_seconds gu = Some rate"
      "0 \<le> e0" "e0 \<le> m" "500 \<le> m" "1 \<le> rate" "cp0 \<le> t"
      by (rule row_okE)
    then show ?thesis
      using b by (simp add: row_ok_def int_or_def split: if_splits)
  qed
  then have "engine_ok t (update_game_user_fields cid
      (\<lambda>r. r\<lparr>energy := Some e, energy_updated_at := Some cp\<rparr>) s1)"
    using ok by (intro update_ok [where gu = gu]) simp_all
  then show ?thesis by (simp add: api_state_def g c)
qed


lemma row_ok_other_fields:
  "row_ok t (r\<lparr>coins := c, multitap_until := a\<rparr>) = row_ok t r"
  "row_ok t (r\<lparr>coins := c, autotap_until := a\<rparr>) = row_ok t r"
  "row_ok t (r\<lparr>coins := c, last_tap_at := b\<rparr>) = row_ok t r"
  "row_ok t (r\<lparr>daily_streak := d, last_streak_at := l\<rparr>) = row_ok t r"
  by (simp_all add: row_ok_def)

lemma row_ok_max_energy:
  assumes "row_ok t r"
  shows "row_ok t (r\<lparr>coins := c, max_energy := Some (int_or (max_energy r) 500 + 100)\<rparr>)"
proof -
  from assms obtain e m cp rate where "energy r = Some e" "max_energy r = Some m"
    "energy_updated_at r = Some cp" "regen_rate_seconds r = Some rate"
    "0 \<le> e" "e \<le> m" "500 \<le> m" "1 \<le> rate" "cp \<le> t"
    by (rule row_okE)
  then show ?thesis by (simp add: row_ok_def int_or_def)
qed

lemma activate_boost_ok:
  assumes "engine_ok t s"
  shows "engine_ok t (snd (activate_boost cid name t s))"
proof -
  obtain gu s1 where g: "get_game_user cid t s = (gu, s1)" by fastforce
  note ok = get_game_user_ok [OF assms g]
  have r: "row_ok t gu" using ok(1,2) by (simp add: engine_ok_def list_all_iff)
  have u: "engine_ok t (update_game_user_fields cid f s1)"
    if "row_ok t (f gu)" "chat_id (f gu) = cid" for f
    using ok that by (intro update_ok [where gu = gu]) simp_all
  show ?thesis
    using ok(1,3) r
    by (simp add: activate_boost_def g Let_def u row_ok_other_fields row_ok_max_energy)
qed

lemma api_boost_ok:
  assumes "engine_ok t s"
  shows "engine_ok t (snd (api_boost cid name t s))"
  using activate_boost_ok [OF assms, of cid name]
  by (auto simp: api_boost_def split: prod.splits)

lemma game_users_can_tap_now: "game_users (snd (can_tap_now cid tick s)) = game_users s"
  by (simp add: can_tap_now_def Let_def)

lemma game_users_clean_old_nonces: "game_users (clean_old_nonces lo cid s) = game_users s"
  by (simp add: clean_old_nonces_def Let_def)

lemma api_tap_unfold:
  assumes c: "can_tap_now cid tick s = (adm, s1)"
    and g: "get_game_user cid now (clean_old_nonces lo cid
       (s1\<lparr>recent_nonces := (recent_nonces s1)(cid := insert n (recent_nonces s1 cid))\<rparr>))
       = (gu, s4)"
    and ce: "compute_energy gu now = (e, cp)"
    and su: "streak_update gu True now = (ns, sd)"
    and g2: "get_game_user cid now
       (update_game_user_fields cid
          (\<lambda>r. r\<lparr>daily_streak := Some ns, last_streak_at := Some sd\<rparr>)
          (update_game_user_fields cid
             (\<lambda>r. r\<lparr>energy := Some (e - 1), energy_updated_at := Some cp\<rparr>)
             (add_tap cid (boost_multiplier gu now) n now s4))) = (gu2, s8)"
    and ce2: "compute_energy gu2 now = (e2, cp2)"
  shows "api_tap cid n now tick lo s =
     (if \<not> adm then (Failed ''Rate limited'', s1)
      else if n = [] \<or> length n > 200 then (Failed ''Bad nonce'', s1)
      else if n \<in> recent_nonces s1 cid then (Failed ''Replay blocked'', s1)
      else if e < 1
      then (No_energy ''No energy'' (int_or (coins gu) 0) e (int_or (max_energy gu) 500), s4)
      else (Tapped (int_or (coins gu2) 0) e2 (int_or (max_energy gu2) 500), s8))"
  unfolding api_tap_def Let_def c prod.case g ce su mult_1 g2 ce2 by simp


lemma api_tap_ok:
  assumes "engine_ok t s"
  shows "engine_ok t (snd (api_tap cid n t tick lo s))"
proof -
  obtain adm s1 where c: "can_tap_now cid tick s = (adm, s1)" by (meson surj_pair)
  have ok1: "engine_ok t s1"
    using game_users_can_tap_now [of cid tick s] assms by (simp add: c engine_ok_def)
  let ?s3 = "clean_old_nonces lo cid
    (s1\<lparr>recent_nonces := (recent_nonces s1)(cid := insert n (recent_nonces s1 cid))\<rparr>)"
  have ok3: "engine_ok t ?s3"
    using ok1 by (simp add: engine_ok_def game_users_clean_old_nonces)
  obtain gu s4 where g: "get_game_user cid t ?s3 = (gu, s4)" by (meson surj_pair)
  note ok4 = get_game_user_ok [OF ok3 g]
  have r: "row_ok t gu" using ok4(1,2) by (simp add: engine_ok_def list_all_iff)
  obtain e cp where ce: "compute_energy gu t = (e, cp)" by (meson surj_pair)
  note b = compute_energy_ok [OF r order_refl ce]
  obtain ns sd where su: "streak_update gu True t = (ns, sd)" by (meson surj_pair)
  let ?d = "boost_multiplier gu t"
  let ?s7 = "update_game_user_fields cid
      (\<lambda>r. r\<lparr>daily_streak := Some ns, last_streak_at := Some sd\<rparr>)
      (update_game_user_fields cid (\<lambda>r. r\<lparr>energy := Some (e - 1), energy_updated_at := Some cp\<rparr>)
         (add_tap cid ?d n t s4))"
  have ok7: "engine_ok t ?s7" if "1 \<le> e"
  proof -
    let ?s = "s4\<lparr>game_taps := game_taps s4 @ [\<lparr>chat_id = cid, ts = t, delta = ?d, nonce = n\<rparr>]\<rparr>"
    let ?f = "(\<lambda>r. r\<lparr>daily_streak := Some ns, last_streak_at := Some sd\<rparr>) \<circ>
      ((\<lambda>r. r\<lparr>energy := Some (e - 1), energy_updated_at := Some cp\<rparr>) \<circ>
       (\<lambda>r. r\<lparr>coins := Some (coalesce (coins r) 0 + ?d), last_tap_at := Some t\<rparr>))"
    have eq: "?s7 = update_game_user_fields cid ?f ?s"
      by (simp only: add_tap_update) (simp add: update_update)
    have "row_ok t (?f gu)"
    proof -
      from r obtain e0 m cp0 rate where "energy gu = Some e0" "max_energy gu = Some m"
        "energy_updated_at gu = Some cp0" "regen_rate_seconds gu = Some rate"
        "0 \<le> e0" "e0 \<le> m" "500 \<le> m" "1 \<le> rate" "cp0 \<le> t"
        by (rule row_okE)
      then show ?thesis
        using b that by (simp add: row_ok_def int_or_def split: if_splits)
    qed
    moreover have "engine_ok t ?s" using ok4(1) by (simp add: engine_ok_def)
    ultimately show ?thesis
      unfolding eq using ok4(2,3) by (intro update_ok [where gu = gu]) simp_all
  qed
  obtain gu2 s8 where g2: "get_game_user cid t ?s7 = (gu2, s8)" by (meson surj_pair)
  have ok8: "engine_ok t s8" if "1 \<le> e"
    using get_game_user_ok(1) [OF ok7 [OF that] g2] .
  obtain e2 cp2 where ce2: "compute_energy gu2 t = (e2, cp2)" by (meson surj_pair)
  show ?thesis
    unfolding api_tap_unfold [OF c g ce su g2 ce2]
    using ok1 ok4(1) ok8 by simp
qed

lemma reachable_engine_ok: "reachable t s \<Longrightarrow> engine_ok t s"
proof (induction rule: reachable.induct)
  case (start t)
  show ?case by (simp add: engine_ok_def engine0_def)
next
  case (upsert t s t' cid uname)
  then show ?case by (intro upsert_ok engine_ok_mono [of t s t'])
next
  case (state t s t' cid)
  then show ?case by (intro api_state_ok engine_ok_mono [of t s t'])
next
  case (boost t s t' cid name)
  then show ?case by (intro api_boost_ok engine_ok_mono [of t s t'])
next
  case (tap t s t' cid n tick lo)
  then show ?case by (intro api_tap_ok engine_ok_mono [of t s t'])
qed

text \<open>
  Claim C2, as the code has it. In every state the engine reaches while the wall clock does not
  go back, every account has \<open>0 \<le> energy \<le> max_energy\<close> and a checkpoint that is not in the
  future; recomputing its energy at that or any later instant returns a value between the stored
  energy and \<open>max_energy\<close>, so a recomputation neither decreases energy nor drives it below zero.
\<close>

theorem reachable_energy_bounds:
  assumes "reachable t s" and "r \<in> set (game_users s)" and "t \<le> now"
  shows "\<exists>e m cp. energy r = Some e \<and> max_energy r = Some m \<and> energy_updated_at r = Some cp
          \<and> 0 \<le> e \<and> e \<le> m \<and> cp \<le> t
          \<and> e \<le> fst (compute_energy r now) \<and> fst (compute_energy r now) \<le> m"
proof -
  have ok: "row_ok t r"
    using reachable_engine_ok [OF assms(1)] assms(2) by (simp add: engine_ok_def list_all_iff)
  then obtain e m cp rate where f: "energy r = Some e" "max_energy r = Some m"
    "energy_updated_at r = Some cp" "regen_rate_seconds r = Some rate"
    and b: "0 \<le> e" "e \<le> m" "500 \<le> m" "1 \<le> rate" "cp \<le> t"
    by (rule row_okE)
  obtain e' cp' where c: "compute_energy r now = (e', cp')" by (meson surj_pair)
  note ce = compute_energy_ok [OF ok assms(3) c]
  have "e \<le> e'" "e' \<le> m"
    using ce(1,2) f b by (simp_all add: int_or_def split: if_splits)
  then show ?thesis using f b c by simp
qed

theorem reachable_energy_bounds_witness:
  "reachable 0 (snd (api_tap 1 ''n1'' 0 0 (\<lambda>_. []) (upsert_user_if_missing 1 None 0 engine0)))
   \<and> \<lparr>chat_id = 1, coins = Some 1, energy = Some 499, max_energy = Some 500,
      energy_updated_at = Some 0, multitap_until = None, autotap_until = None,
      regen_rate_seconds = Some 3, last_tap_at = Some 0, daily_streak = Some 1,
      last_streak_at = Some 0\<rparr>
     \<in> set (game_users
         (snd (api_tap 1 ''n1'' 0 0 (\<lambda>_. []) (upsert_user_if_missing 1 None 0 engine0))))
   \<and> (0::int) \<le> 7000000
   \<and> (\<exists>e m cp.
        energy \<lparr>chat_id = 1, coins = Some 1, energy = Some 499, max_energy = Some 500,
          energy_updated_at = Some 0, multitap_until = None, autotap_until = None,
          regen_rate_seconds = Some 3, last_tap_at = Some 0, daily_streak = Some 1,
          last_streak_at = Some 0\<rparr> = Some e
      \<and> max_energy \<lparr>chat_id = 1, coins = Some 1, energy = Some 499, max_energy = Some 500,
          energy_updated_at = Some 0, multitap_until = None, autotap_until = None,
          regen_rate_seconds = Some 3, last_tap_at = Some 0, daily_streak = Some 1,
          last_streak_at = Some 0\<rparr> = Some m
      \<and> energy_updated_at \<lparr>chat_id = 1, coins = Some 1, energy = Some 499,
          max_energy = Some 500,
          energy_updated_at = Some 0, multitap_until = None, autotap_until = None,
          regen_rate_seconds = Some 3, last_tap_at = Some 0, daily_streak = Some 1,
          last_streak_at = Some 0\<rparr> = Some cp
      \<and> 0 \<le> e \<and> e \<le> m \<and> cp \<le> 0
      \<and> e \<le> fst (compute_energy \<lparr>chat_id = 1, coins = Some 1, energy = Some 499,
          max_energy = Some 500,
          energy_updated_at = Some 0, multitap_until = None, autotap_until = None,
          regen_rate_seconds = Some 3, last_tap_at = Some 0, daily_streak = Some 1,
          last_streak_at = Some 0\<rparr> 7000000)
      \<and> fst (compute_energy \<lparr>chat_id = 1, coins = Some 1, energy = Some 499,
          max_energy = Some 500,
          energy_updated_at = Some 0, multitap_until = None, autotap_until = None,
          regen_rate_seconds = Some 3, last_tap_at = Some 0, daily_streak = Some 1,
          last_streak_at = Some 0\<rparr> 7000000) \<le> m)"
proof -
  let ?s = "snd (api_tap 1 ''n1'' 0 0 (\<lambda>_. []) (upsert_user_if_missing 1 None 0 engine0))"
  let ?r = "\<lparr>chat_id = 1, coins = Some 1, energy = Some 499, max_energy = Some 500,
      energy_updated_at = Some 0, multitap_until = None, autotap_until = None,
      regen_rate_seconds = Some 3, last_tap_at = Some 0, daily_streak = Some 1,
      last_streak_at = Some (0::int)\<rparr>"
  have "reachable 0 (upsert_user_if_missing 1 None 0 engine0)"
    by (rule reachable.upsert [OF reachable.start [of 0]]) simp
  then have re: "reachable 0 ?s"
    by (rule reachable.tap) simp
  have mem: "?r \<in> set (game_users ?s)"
    by (simp add: engine_eval)
  have le: "(0::int) \<le> 7000000" by simp
  show ?thesis
    using re mem le reachable_energy_bounds [OF re mem le] by blast
qed

text \<open>
  The claim as written does not hold: elapsed time is not clamped. For a checkpoint seven
  seconds after \<open>now\<close>, at rate 3 and stored energy 0, \<open>compute_energy\<close> returns \<open>-3\<close>, not the
  stored energy, and \<open>api_state\<close> stores that value.
\<close>

theorem compute_energy_future_checkpoint_counterexample:
  "compute_energy (example_row 1 0 0 7000000) 0 = (- 3, 7000000)
   \<and> api_state 1 0 (engine_of [example_row 1 0 0 7000000])
       = (State 0 (- 3) 500 0, engine_of [example_row 1 0 (- 3) 7000000])"
  by (simp add: engine_eval)

subsection \<open>The rate window\<close>

lemma can_tap_now_window:
  "can_tap_now cid now s =
     (length (dropWhile (\<lambda>t0. now - t0 > 1) (rate_windows s cid)) < 20,
      s\<lparr>rate_windows := (rate_windows s)
          (cid := (if length (dropWhile (\<lambda>t0. now - t0 > 1) (rate_windows s cid)) < 20
                   then dropWhile (\<lambda>t0. now - t0 > 1) (rate_windows s cid) @ [now]
                   else dropWhile (\<lambda>t0. now - t0 > 1) (rate_windows s cid)))\<rparr>)"
  by (simp add: can_tap_now_def Let_def MAX_TAPS_PER_SEC_def RATE_WINDOW_SEC_def
      deque_append_def not_le)

lemma evict_sorted:
  "sorted dq \<Longrightarrow> dropWhile (\<lambda>t0. now - t0 > 1) dq = filter (\<lambda>t0. now - t0 \<le> (1::real)) dq"
proof (induction dq)
  case Nil
  show ?case by simp
next
  case (Cons a dq)
  show ?case
  proof (cases "now - a > 1")
    case True
    then show ?thesis using Cons by simp
  next
    case False
    then have "\<forall>b \<in> set (a # dq). now - b \<le> 1" using Cons.prems by auto
    then have "filter (\<lambda>t0. now - t0 \<le> 1) (a # dq) = a # dq"
      by (simp only: filter_id_conv)
    then show ?thesis using False by simp
  qed
qed

lemma evict_none:
  "\<forall>a \<in> set dq. now - a \<le> (1::real) \<Longrightarrow> dropWhile (\<lambda>t0. now - t0 > 1) dq = dq"
  by (cases dq) auto

lemma evict_all:
  "\<forall>a \<in> set dq. (1::real) < now - a \<Longrightarrow> dropWhile (\<lambda>t0. 1 < now - t0) dq = []"
  by simp

lemma length_filter_mono:
  "(\<And>x. x \<in> set xs \<Longrightarrow> P x \<Longrightarrow> Q x) \<Longrightarrow> length (filter P xs) \<le> length (filter Q xs)"
  by (induction xs) auto

lemma window_step:
  assumes inv: "window_inv H (rate_windows s cid) t0" and le: "t0 \<le> t"
    and c: "can_tap_now cid t s = (ok, s1)"
  shows "window_inv (H @ (if ok then [t] else [])) (rate_windows s1 cid) t"
proof -
  let ?dq = "rate_windows s cid"
  let ?ev = "dropWhile (\<lambda>a. t - a > 1) ?dq"
  from inv have sH: "sorted H" and bH: "\<forall>a \<in> set H. a \<le> t0"
    and dq: "?dq = filter (\<lambda>a. t0 - a \<le> 1) H" and len: "length ?dq \<le> 20"
    and win: "\<And>u. length (filter (\<lambda>a. u \<le> a \<and> a \<le> u + 1) H) \<le> 20"
    unfolding window_inv_def by blast+
  have "sorted ?dq" unfolding dq using sH by (rule sorted_wrt_filter)
  then have "?ev = filter (\<lambda>a. t - a \<le> 1) ?dq" by (rule evict_sorted)
  also have "\<dots> = filter (\<lambda>a. t - a \<le> 1) H"
    unfolding dq using le by (auto intro!: filter_cong)
  finally have ev: "?ev = filter (\<lambda>a. t - a \<le> 1) H" .
  have evlen: "length ?ev \<le> 20"
    using len length_dropWhile_le [of "\<lambda>a. t - a > 1" ?dq] by linarith
  have ok: "ok = (length ?ev < 20)"
    and w1: "rate_windows s1 cid = (if length ?ev < 20 then ?ev @ [t] else ?ev)"
    using c by (auto simp: can_tap_now_window)
  show ?thesis
  proof (cases ok)
    case True
    have w: "rate_windows s1 cid = filter (\<lambda>a. t - a \<le> 1) (H @ [t])"
      using True ok w1 ev by simp
    have "length (filter (\<lambda>a. u \<le> a \<and> a \<le> u + 1) (H @ [t])) \<le> 20" for u
    proof (cases "u \<le> t \<and> t \<le> u + 1")
      case True
      have "length (filter (\<lambda>a. u \<le> a \<and> a \<le> u + 1) (H @ [t]))
          \<le> length (filter (\<lambda>a. t - a \<le> 1) (H @ [t]))"
        using True by (intro length_filter_mono) auto
      also have "\<dots> \<le> 20"
        using \<open>ok\<close> ok w w1 by simp
      finally show ?thesis .
    next
      case False
      then show ?thesis using win [of u] by auto
    qed
    moreover have "sorted (H @ [t])"
      using sH bH le by (auto simp: sorted_append)
    moreover have "\<forall>a \<in> set (H @ [t]). a \<le> t" using bH le by auto
    moreover have "length (rate_windows s1 cid) \<le> 20" using w1 True ok by simp
    ultimately show ?thesis using True w by (simp add: window_inv_def)
  next
    case False
    have "rate_windows s1 cid = filter (\<lambda>a. t - a \<le> 1) H"
      using False ok w1 ev by simp
    moreover have "\<forall>a \<in> set H. a \<le> t" using bH le by auto
    moreover have "length (rate_windows s1 cid) \<le> 20" using w1 False ok evlen by simp
    ultimately show ?thesis using False sH win by (simp add: window_inv_def)
  qed
qed

lemma accepted_Cons:
  "accepted (t # stamps) (ok # oks) = (if ok then [t] else []) @ accepted stamps oks"
  by (simp add: accepted_def)

lemma window_run:
  assumes "window_inv H (rate_windows s cid) t0" and "sorted (t0 # stamps)"
    and "tap_run cid stamps s = (oks, s')"
  shows "window_inv (H @ accepted stamps oks) (rate_windows s' cid) (last (t0 # stamps))"
  using assms
proof (induction stamps arbitrary: H s t0 oks s')
  case Nil
  then show ?case by (simp add: accepted_def)
next
  case (Cons t stamps)
  obtain ok s1 where c: "can_tap_now cid t s = (ok, s1)" by (meson surj_pair)
  obtain oks1 s2 where r: "tap_run cid stamps s1 = (oks1, s2)" by (meson surj_pair)
  have o: "oks = ok # oks1" and s': "s' = s2"
    using Cons.prems(3) by (simp_all add: c r)
  have le: "t0 \<le> t" using Cons.prems(2) by simp
  have st: "sorted (t # stamps)" using Cons.prems(2) by simp
  note step = window_step [OF Cons.prems(1) le c]
  note ih = Cons.IH [OF step st r]
  show ?case using ih by (simp add: o s' accepted_Cons)
qed

lemma window_cold_start:
  assumes "rate_windows s cid = []" and "sorted stamps" and "tap_run cid stamps s = (oks, s')"
  shows "length (filter (\<lambda>a. u \<le> a \<and> a \<le> u + 1) (accepted stamps oks)) \<le> 20"
proof (cases stamps)
  case Nil
  then show ?thesis using assms(3) by (simp add: accepted_def)
next
  case (Cons t rest)
  have "window_inv [] (rate_windows s cid) t" by (simp add: window_inv_def assms(1))
  moreover have "sorted (t # stamps)" using assms(2) Cons by simp
  ultimately have "window_inv ([] @ accepted stamps oks) (rate_windows s' cid) (last (t # stamps))"
    using assms(3) by (rule window_run)
  then show ?thesis by (simp add: window_inv_def)
qed

lemma burst_run:
  assumes "\<forall>a \<in> set (rate_windows s cid). \<forall>t \<in> set stamps. t - a \<le> 1"
    and "\<forall>t \<in> set stamps. \<forall>t' \<in> set stamps. t' - t \<le> 1"
    and "tap_run cid stamps s = (oks, s')"
  shows "oks = replicate (min (length stamps) (20 - length (rate_windows s cid))) True
            @ replicate (length stamps - (20 - length (rate_windows s cid))) False
       \<and> rate_windows s' cid = rate_windows s cid @ take (20 - length (rate_windows s cid)) stamps"
  using assms
proof (induction stamps arbitrary: s oks s')
  case Nil
  then show ?case by simp
next
  case (Cons t stamps)
  let ?dq = "rate_windows s cid"
  obtain ok s1 where c: "can_tap_now cid t s = (ok, s1)" by (meson surj_pair)
  obtain oks1 s2 where r: "tap_run cid stamps s1 = (oks1, s2)" by (meson surj_pair)
  have o: "oks = ok # oks1" and s': "s' = s2"
    using Cons.prems(3) by (simp_all add: c r)
  have ev: "dropWhile (\<lambda>a. t - a > 1) ?dq = ?dq"
    using Cons.prems(1) by (intro evict_none) simp
  have ok: "ok = (length ?dq < 20)"
    and w1: "rate_windows s1 cid = (if length ?dq < 20 then ?dq @ [t] else ?dq)"
    using c by (auto simp: can_tap_now_window ev)
  have p1: "\<forall>a \<in> set (rate_windows s1 cid). \<forall>u \<in> set stamps. u - a \<le> 1"
    using Cons.prems(1,2) by (auto simp: w1)
  have p2: "\<forall>u \<in> set stamps. \<forall>u' \<in> set stamps. u' - u \<le> 1"
    using Cons.prems(2) by simp
  note ih = Cons.IH [OF p1 p2 r]
  show ?case
  proof (cases "length ?dq < 20")
    case True
    have k: "20 - length ?dq = Suc (19 - length ?dq)" using True by simp
    have k1: "20 - length (rate_windows s1 cid) = 19 - length ?dq" using True w1 by simp
    have k2: "length stamps - (19 - length ?dq) = length stamps + length ?dq - 19"
      using True by simp
    show ?thesis using ih True ok w1 unfolding k k1 o s' by (simp add: k2)
  next
    case False
    then have z: "20 - length ?dq = 0" by simp
    have z1: "20 - length (rate_windows s1 cid) = 0" using False w1 by simp
    show ?thesis using ih False ok w1 by (simp add: o s' z z1)
  qed
qed

lemma api_tap_rate_limited:
  assumes "\<not> fst (can_tap_now cid tick s)"
  shows "api_tap cid n now tick lo s = (Failed ''Rate limited'', snd (can_tap_now cid tick s))"
  using assms by (cases "can_tap_now cid tick s") (simp add: api_tap_def)

text \<open>
  Claim C3. \<open>can_tap_now\<close> first evicts the timestamps older than one second and then counts:
  it accepts exactly when fewer than 20 remain, records the timestamp of an accepted call and
  not that of a rejected one; on a time-ordered window eviction removes exactly the entries
  older than the window. From a cold start and with a clock that does not go back, no closed
  interval of one second holds more than 20 accepted taps; of 21 taps within one second the
  first 20 are accepted and the 21st is rejected and leaves no timestamp; \<open>api_tap\<close> answers a
  rejected call with \<^verbatim>\<open>Rate limited\<close>; and once every recorded timestamp is older than the
  window a tap is accepted again.
\<close>

theorem rate_limit_window:
  "can_tap_now cid now s =
     (let dq = dropWhile (\<lambda>t0. now - t0 > 1) (rate_windows s cid)
      in (length dq < 20,
          s\<lparr>rate_windows := (rate_windows s)(cid := if length dq < 20 then dq @ [now] else dq)\<rparr>))
   \<and> (sorted (rate_windows s cid) \<longrightarrow>
        dropWhile (\<lambda>t0. now - t0 > 1) (rate_windows s cid)
        = filter (\<lambda>t0. now - t0 \<le> 1) (rate_windows s cid))
   \<and> (rate_windows s cid = [] \<and> sorted stamps \<longrightarrow>
        length (filter (\<lambda>a. u \<le> a \<and> a \<le> u + 1)
                  (accepted stamps (fst (tap_run cid stamps s)))) \<le> 20)
   \<and> (rate_windows s cid = [] \<and> length stamps = 21
        \<and> (\<forall>t \<in> set stamps. \<forall>t' \<in> set stamps. t' - t \<le> 1) \<longrightarrow>
        fst (tap_run cid stamps s) = replicate 20 True @ [False]
        \<and> rate_windows (snd (tap_run cid stamps s)) cid = take 20 stamps)
   \<and> (\<not> fst (can_tap_now cid tick s) \<longrightarrow>
        api_tap cid n wall tick lo s = (Failed ''Rate limited'', snd (can_tap_now cid tick s)))
   \<and> ((\<forall>t0 \<in> set (rate_windows s cid). now - t0 > 1) \<longrightarrow>
        fst (can_tap_now cid now s)
        \<and> rate_windows (snd (can_tap_now cid now s)) cid = [now])"
proof (intro conjI impI)
  show "can_tap_now cid now s =
     (let dq = dropWhile (\<lambda>t0. now - t0 > 1) (rate_windows s cid)
      in (length dq < 20,
          s\<lparr>rate_windows := (rate_windows s)(cid := if length dq < 20 then dq @ [now] else dq)\<rparr>))"
    by (simp add: can_tap_now_window Let_def)
  show "dropWhile (\<lambda>t0. now - t0 > 1) (rate_windows s cid)
        = filter (\<lambda>t0. now - t0 \<le> 1) (rate_windows s cid)" if "sorted (rate_windows s cid)"
    using that by (rule evict_sorted)
  show "length (filter (\<lambda>a. u \<le> a \<and> a \<le> u + 1)
                  (accepted stamps (fst (tap_run cid stamps s)))) \<le> 20"
    if "rate_windows s cid = [] \<and> sorted stamps"
    using that window_cold_start [of s cid stamps "fst (tap_run cid stamps s)"
        "snd (tap_run cid stamps s)" u] by simp
  show "api_tap cid n wall tick lo s = (Failed ''Rate limited'', snd (can_tap_now cid tick s))"
    if "\<not> fst (can_tap_now cid tick s)"
    using that by (rule api_tap_rate_limited)
next
  assume a: "rate_windows s cid = [] \<and> length stamps = 21
        \<and> (\<forall>t \<in> set stamps. \<forall>t' \<in> set stamps. t' - t \<le> 1)"
  have "fst (tap_run cid stamps s) = replicate 20 True @ [False]
     \<and> rate_windows (snd (tap_run cid stamps s)) cid = take 20 stamps"
    using a burst_run [of s cid stamps "fst (tap_run cid stamps s)" "snd (tap_run cid stamps s)"]
    by simp
  then show "fst (tap_run cid stamps s) = replicate 20 True @ [False]"
    and "rate_windows (snd (tap_run cid stamps s)) cid = take 20 stamps"
    by simp_all
next
  assume a: "\<forall>t0 \<in> set (rate_windows s cid). now - t0 > 1"
  show "fst (can_tap_now cid now s)"
    and "rate_windows (snd (can_tap_now cid now s)) cid = [now]"
    using a by (simp_all add: can_tap_now_window evict_all)
qed

theorem rate_limit_window_witness:
  "(fst (tap_run 1 (map (\<lambda>i. real i / 20) [0..<21]) engine0) = replicate 20 True @ [False]
    \<and> rate_windows (snd (tap_run 1 (map (\<lambda>i. real i / 20) [0..<21]) engine0)) 1
        = take 20 (map (\<lambda>i. real i / 20) [0..<21])
    \<and> length (filter (\<lambda>a. 0 \<le> a \<and> a \<le> 0 + 1)
          (accepted (map (\<lambda>i. real i / 20) [0..<21])
             (fst (tap_run 1 (map (\<lambda>i. real i / 20) [0..<21]) engine0)))) \<le> 20)
   \<and> (\<not> fst (can_tap_now 1 (1/2) (engine0\<lparr>rate_windows := (\<lambda>_. replicate 20 0)\<rparr>))
    \<and> api_tap 1 ''n'' 0 (1/2) (\<lambda>_. []) (engine0\<lparr>rate_windows := (\<lambda>_. replicate 20 0)\<rparr>)
        = (Failed ''Rate limited'',
           snd (can_tap_now 1 (1/2) (engine0\<lparr>rate_windows := (\<lambda>_. replicate 20 0)\<rparr>)))
    \<and> sorted (replicate 20 (0::real))
    \<and> dropWhile (\<lambda>t0. 3/2 - t0 > 1) (replicate 20 (0::real))
        = filter (\<lambda>t0. 3/2 - t0 \<le> 1) (replicate 20 (0::real))
    \<and> fst (can_tap_now 1 (3/2) (engine0\<lparr>rate_windows := (\<lambda>_. replicate 20 0)\<rparr>))
    \<and> rate_windows (snd (can_tap_now 1 (3/2) (engine0\<lparr>rate_windows := (\<lambda>_. replicate 20 0)\<rparr>)))
          1 = [3/2])"
proof -
  let ?st = "map (\<lambda>i. real i / 20) [0..<21]"
  let ?full = "engine0\<lparr>rate_windows := (\<lambda>_. replicate 20 (0::real))\<rparr>"
  have cold: "rate_windows engine0 1 = []" by (simp add: engine0_def)
  have srt: "sorted ?st"
    by (simp add: sorted_map sorted_wrt_iff_nth_less divide_right_mono del: upt_Suc)
  have len: "length ?st = 21" by simp
  have near: "\<forall>t \<in> set ?st. \<forall>t' \<in> set ?st. t' - t \<le> 1"
    by (auto simp del: upt_Suc)
  have rej: "\<not> fst (can_tap_now 1 (1/2) ?full)"
    by (simp add: can_tap_now_window)
  have old: "\<forall>t0 \<in> set (rate_windows ?full 1). 3/2 - t0 > 1" by simp
  have srt0: "sorted (rate_windows ?full 1)" by simp
  note a = rate_limit_window [where s = engine0 and cid = 1 and stamps = ?st and u = 0
      and now = 0 and tick = 0 and n = "''n''" and wall = 0 and lo = "\<lambda>_. []"]
  note b = rate_limit_window [where s = ?full and cid = 1 and stamps = "[]" and u = 0
      and now = "3/2" and tick = "1/2" and n = "''n''" and wall = 0 and lo = "\<lambda>_. []"]
  have A: "fst (tap_run 1 ?st engine0) = replicate 20 True @ [False]
    \<and> rate_windows (snd (tap_run 1 ?st engine0)) 1 = take 20 ?st"
    using a cold len near by blast
  have A': "length (filter (\<lambda>a. 0 \<le> a \<and> a \<le> 0 + 1)
      (accepted ?st (fst (tap_run 1 ?st engine0)))) \<le> 20"
    using a cold srt by blast
  have B: "api_tap 1 ''n'' 0 (1/2) (\<lambda>_. []) ?full
      = (Failed ''Rate limited'', snd (can_tap_now 1 (1/2) ?full))"
    using b rej by blast
  have C: "fst (can_tap_now 1 (3/2) ?full)
      \<and> rate_windows (snd (can_tap_now 1 (3/2) ?full)) 1 = [3/2]"
    using b old by blast
  have D: "dropWhile (\<lambda>t0. 3/2 - t0 > 1) (rate_windows ?full 1)
        = filter (\<lambda>t0. 3/2 - t0 \<le> 1) (rate_windows ?full 1)"
    using b srt0 by blast
  show ?thesis
    using A A' B C D rej srt0 by simp
qed

lemma can_tap_now_frame:
  "users (snd (can_tap_now cid tick s)) = users s"
  "game_taps (snd (can_tap_now cid tick s)) = game_taps s"
  "recent_nonces (snd (can_tap_now cid tick s)) = recent_nonces s"
  by (simp_all add: can_tap_now_def Let_def)

lemma clean_old_nonces_frame:
  "users (clean_old_nonces lo cid s) = users s"
  "game_taps (clean_old_nonces lo cid s) = game_taps s"
  "rate_windows (clean_old_nonces lo cid s) = rate_windows s"
  "c \<noteq> cid \<Longrightarrow> recent_nonces (clean_old_nonces lo cid s) c = recent_nonces s c"
  by (simp_all add: clean_old_nonces_def Let_def)

lemma get_game_user_cases:
  "get_game_user cid now s =
     (case db_fetchone cid (game_users s) of
        Some r \<Rightarrow> (r, s)
      | None \<Rightarrow> (new_game_user cid now, upsert_user_if_missing cid None now s))"
  by (simp add: get_game_user_def Let_def game_users_upsert db_fetchone_append_new chat_id_new
      split: option.splits)

lemma get_game_user_frame:
  "recent_nonces (snd (get_game_user cid now s)) = recent_nonces s"
  "rate_windows (snd (get_game_user cid now s)) = rate_windows s"
  "game_taps (snd (get_game_user cid now s)) = game_taps s"
  by (simp_all add: get_game_user_cases upsert_user_if_missing_def Let_def split: option.splits)

lemma update_frame:
  "users (update_game_user_fields cid f s) = users s"
  "game_taps (update_game_user_fields cid f s) = game_taps s"
  "rate_windows (update_game_user_fields cid f s) = rate_windows s"
  "recent_nonces (update_game_user_fields cid f s) = recent_nonces s"
  by (simp_all add: update_game_user_fields_def)

lemma add_tap_frame:
  "users (add_tap cid d n now s) = users s"
  "rate_windows (add_tap cid d n now s) = rate_windows s"
  "recent_nonces (add_tap cid d n now s) = recent_nonces s"
  "game_taps (add_tap cid d n now s)
     = game_taps s @ [\<lparr>chat_id = cid, ts = now, delta = d, nonce = n\<rparr>]"
  by (simp_all add: add_tap_def Let_def)

lemma compute_energy_new: "compute_energy (new_game_user cid now) now = (500, now)"
  by (simp add: compute_energy_def new_game_user_def int_or_def int_total_seconds_def Let_def)

text \<open>What \<open>api_tap\<close> does once the nonce has been recorded and the cache trimmed.\<close>

lemma api_tap_recorded:
  assumes c: "can_tap_now cid tick s = (True, s1)"
    and n: "n \<noteq> []" "length n \<le> 200" "n \<notin> recent_nonces s cid"
    and s3_def: "s3 = clean_old_nonces lo cid
       (s1\<lparr>recent_nonces := (recent_nonces s1)(cid := insert n (recent_nonces s1 cid))\<rparr>)"
  shows "\<exists>gu s4 e cp. get_game_user cid now s3 = (gu, s4) \<and> compute_energy gu now = (e, cp)
     \<and> (if e < 1
         then api_tap cid n now tick lo s =
           (No_energy ''No energy'' (int_or (coins gu) 0) e (int_or (max_energy gu) 500), s4)
             \<and> s4 = s3 \<and> db_fetchone cid (game_users s) = Some gu
         else (\<exists>c2 e2 m2 s8. api_tap cid n now tick lo s = (Tapped c2 e2 m2, s8)
               \<and> recent_nonces s8 = recent_nonces s3
               \<and> game_taps s8 = game_taps s @
                    [\<lparr>chat_id = cid, ts = now, delta = boost_multiplier gu now, nonce = n\<rparr>]))"
proof -
  obtain gu s4 where g: "get_game_user cid now s3 = (gu, s4)" by (meson surj_pair)
  obtain e cp where ce: "compute_energy gu now = (e, cp)" by (meson surj_pair)
  obtain ns sd where su: "streak_update gu True now = (ns, sd)" by (meson surj_pair)
  let ?s7 = "update_game_user_fields cid
          (\<lambda>r. r\<lparr>daily_streak := Some ns, last_streak_at := Some sd\<rparr>)
          (update_game_user_fields cid
             (\<lambda>r. r\<lparr>energy := Some (e - 1), energy_updated_at := Some cp\<rparr>)
             (add_tap cid (boost_multiplier gu now) n now s4))"
  obtain gu2 s8 where g2: "get_game_user cid now ?s7 = (gu2, s8)" by (meson surj_pair)
  obtain e2 cp2 where ce2: "compute_energy gu2 now = (e2, cp2)" by (meson surj_pair)
  have s1: "recent_nonces s1 = recent_nonces s" "game_users s1 = game_users s"
    "game_taps s1 = game_taps s"
    using can_tap_now_frame [of cid tick s] game_users_can_tap_now [of cid tick s]
    by (simp_all add: c)
  have n1: "n \<notin> recent_nonces s1 cid" using n(3) s1 by simp
  note u = api_tap_unfold [OF c g [unfolded s3_def] ce su g2 ce2]
  have tables3: "game_users s3 = game_users s" "game_taps s3 = game_taps s"
    by (simp_all add: s3_def game_users_clean_old_nonces clean_old_nonces_frame s1)
  show ?thesis
  proof (cases "e < 1")
    case True
    have "db_fetchone cid (game_users s3) \<noteq> None"
    proof
      assume "db_fetchone cid (game_users s3) = None"
      then have "gu = new_game_user cid now" using g by (simp add: get_game_user_cases)
      then show False using ce True by (simp add: compute_energy_new)
    qed
    then have "s4 = s3" "db_fetchone cid (game_users s3) = Some gu"
      using g by (auto simp: get_game_user_cases)
    then show ?thesis
      using True u n n1 g ce tables3 by simp
  next
    case False
    have "recent_nonces s8 = recent_nonces s4"
      using get_game_user_frame(1) [of cid now ?s7] by (simp add: g2 update_frame add_tap_frame)
    moreover have "recent_nonces s4 = recent_nonces s3"
      using get_game_user_frame(1) [of cid now s3] by (simp add: g)
    moreover have "game_taps s8 =
        game_taps s4 @ [\<lparr>chat_id = cid, ts = now, delta = boost_multiplier gu now, nonce = n\<rparr>]"
      using get_game_user_frame(3) [of cid now ?s7] by (simp add: g2 update_frame add_tap_frame)
    moreover have "game_taps s4 = game_taps s"
      using get_game_user_frame(3) [of cid now s3] by (simp add: g tables3)
    ultimately show ?thesis
      using False u n n1 g ce by simp
  qed
qed

subsection \<open>Nonce admission\<close>


lemma recent_nonces_clean:
  "recent_nonces (clean_old_nonces lo cid s) cid =
     (if card (recent_nonces s cid) > 200
      then set (drop (length (lo (recent_nonces s cid)) - 100) (lo (recent_nonces s cid)))
      else recent_nonces s cid)"
  by (simp add: clean_old_nonces_def Let_def)

lemma api_tap_nonce_cache:
  assumes c: "can_tap_now cid tick s = (True, s1)"
    and n: "n \<noteq> []" "length n \<le> 200" "n \<notin> recent_nonces s cid"
  shows "((\<exists>c e m. fst (api_tap cid n now tick lo s) = Tapped c e m)
          \<or> (\<exists>c e m. fst (api_tap cid n now tick lo s) = No_energy ''No energy'' c e m))
     \<and> recent_nonces (snd (api_tap cid n now tick lo s)) cid =
         (if card (insert n (recent_nonces s cid)) > 200
          then set (drop (length (lo (insert n (recent_nonces s cid))) - 100)
                      (lo (insert n (recent_nonces s cid))))
          else insert n (recent_nonces s cid))
     \<and> (\<forall>c'. c' \<noteq> cid \<longrightarrow> recent_nonces (snd (api_tap cid n now tick lo s)) c'
           = recent_nonces s c')"
proof -
  let ?s3 = "clean_old_nonces lo cid
       (s1\<lparr>recent_nonces := (recent_nonces s1)(cid := insert n (recent_nonces s1 cid))\<rparr>)"
  have s1: "recent_nonces s1 = recent_nonces s"
    using can_tap_now_frame(3) [of cid tick s] by (simp add: c)
  have r3: "recent_nonces ?s3 cid =
         (if card (insert n (recent_nonces s cid)) > 200
          then set (drop (length (lo (insert n (recent_nonces s cid))) - 100)
                      (lo (insert n (recent_nonces s cid))))
          else insert n (recent_nonces s cid))"
    by (simp add: recent_nonces_clean s1)
  have o3: "recent_nonces ?s3 c' = recent_nonces s c'" if "c' \<noteq> cid" for c'
    using that by (simp add: clean_old_nonces_frame s1)
  from api_tap_recorded [OF c n refl, where lo = lo and now = now]
  obtain gu s4 e cp where g: "get_game_user cid now ?s3 = (gu, s4)"
    and ce: "compute_energy gu now = (e, cp)"
    and r: "if e < 1
         then api_tap cid n now tick lo s =
           (No_energy ''No energy'' (int_or (coins gu) 0) e (int_or (max_energy gu) 500), s4)
             \<and> s4 = ?s3 \<and> db_fetchone cid (game_users s) = Some gu
         else (\<exists>c2 e2 m2 s8. api_tap cid n now tick lo s = (Tapped c2 e2 m2, s8)
               \<and> recent_nonces s8 = recent_nonces ?s3
               \<and> game_taps s8 = game_taps s @
                    [\<lparr>chat_id = cid, ts = now, delta = boost_multiplier gu now, nonce = n\<rparr>])"
    by blast
  show ?thesis
  proof (cases "e < 1")
    case True
    then have "api_tap cid n now tick lo s =
        (No_energy ''No energy'' (int_or (coins gu) 0) e (int_or (max_energy gu) 500), ?s3)"
      using r by simp
    then show ?thesis using r3 o3 by simp
  next
    case False
    then obtain c2 e2 m2 s8 where "api_tap cid n now tick lo s = (Tapped c2 e2 m2, s8)"
      and "recent_nonces s8 = recent_nonces ?s3"
      using r by auto
    then show ?thesis using r3 o3 by simp
  qed
qed

text \<open>
  Claim C4. For a tap that the rate window admits: an empty nonce or one longer than 200
  characters is answered \<^verbatim>\<open>Bad nonce\<close>; a nonce held in the account's own cache is answered
  \<^verbatim>\<open>Replay blocked\<close>; a nonce that is not in the account's own cache passes admission whatever
  the caches of other accounts hold (the answer is a tap or \<^verbatim>\<open>No energy\<close>), it is added to that
  account's cache and the cache is then trimmed, the caches of other accounts stay as they are,
  and below the size bound the nonce is in the cache afterwards.
\<close>

theorem nonce_admission:
  assumes "can_tap_now cid tick s = (True, s1)"
  shows "(n = [] \<or> length n > 200 \<longrightarrow>
            api_tap cid n now tick lo s = (Failed ''Bad nonce'', s1))
     \<and> (n \<noteq> [] \<and> length n \<le> 200 \<and> n \<in> recent_nonces s cid \<longrightarrow>
            api_tap cid n now tick lo s = (Failed ''Replay blocked'', s1))
     \<and> (n \<noteq> [] \<and> length n \<le> 200 \<and> n \<notin> recent_nonces s cid \<longrightarrow>
          ((\<exists>c e m. fst (api_tap cid n now tick lo s) = Tapped c e m)
            \<or> (\<exists>c e m. fst (api_tap cid n now tick lo s) = No_energy ''No energy'' c e m))
          \<and> recent_nonces (snd (api_tap cid n now tick lo s)) cid =
              (if card (insert n (recent_nonces s cid)) > 200
               then set (drop (length (lo (insert n (recent_nonces s cid))) - 100)
                           (lo (insert n (recent_nonces s cid))))
               else insert n (recent_nonces s cid))
          \<and> (\<forall>c'. c' \<noteq> cid \<longrightarrow>
                recent_nonces (snd (api_tap cid n now tick lo s)) c' = recent_nonces s c')
          \<and> (finite (recent_nonces s cid) \<and> card (recent_nonces s cid) < 200 \<longrightarrow>
                n \<in> recent_nonces (snd (api_tap cid n now tick lo s)) cid))"
proof (intro conjI impI)
  have s1: "recent_nonces s1 = recent_nonces s"
    using can_tap_now_frame(3) [of cid tick s] by (simp add: assms)
  show "api_tap cid n now tick lo s = (Failed ''Bad nonce'', s1)" if "n = [] \<or> length n > 200"
    using that by (auto simp: api_tap_def assms)
  show "api_tap cid n now tick lo s = (Failed ''Replay blocked'', s1)"
    if "n \<noteq> [] \<and> length n \<le> 200 \<and> n \<in> recent_nonces s cid"
    using that by (simp add: api_tap_def assms s1)
next
  assume a: "n \<noteq> [] \<and> length n \<le> 200 \<and> n \<notin> recent_nonces s cid"
  then have n: "n \<noteq> []" "length n \<le> 200" "n \<notin> recent_nonces s cid" by simp_all
  note k = api_tap_nonce_cache [OF assms n, where lo = lo and now = now]
  show "(\<exists>c e m. fst (api_tap cid n now tick lo s) = Tapped c e m)
            \<or> (\<exists>c e m. fst (api_tap cid n now tick lo s) = No_energy ''No energy'' c e m)"
    using k by blast
  show r: "recent_nonces (snd (api_tap cid n now tick lo s)) cid =
              (if card (insert n (recent_nonces s cid)) > 200
               then set (drop (length (lo (insert n (recent_nonces s cid))) - 100)
                           (lo (insert n (recent_nonces s cid))))
               else insert n (recent_nonces s cid))"
    using k by blast
  show "\<forall>c'. c' \<noteq> cid \<longrightarrow>
                recent_nonces (snd (api_tap cid n now tick lo s)) c' = recent_nonces s c'"
    using k by blast
  show "n \<in> recent_nonces (snd (api_tap cid n now tick lo s)) cid"
    if "finite (recent_nonces s cid) \<and> card (recent_nonces s cid) < 200"
  proof -
    have "card (insert n (recent_nonces s cid)) \<le> 200"
      using that n(3) by simp
    then show ?thesis unfolding r by simp
  qed
qed


theorem nonce_admission_witness:
  "can_tap_now 1 0 (engine0\<lparr>recent_nonces := (\<lambda>_. {})(2 := {''x''})\<rparr>)
     = (True, engine0\<lparr>recent_nonces := (\<lambda>_. {})(2 := {''x''}),
                      rate_windows := (\<lambda>_. [])(1 := [0])\<rparr>)
   \<and> api_tap 1 [] 0 0 (\<lambda>_. []) (engine0\<lparr>recent_nonces := (\<lambda>_. {})(2 := {''x''})\<rparr>)
     = (Failed ''Bad nonce'', engine0\<lparr>recent_nonces := (\<lambda>_. {})(2 := {''x''}),
                      rate_windows := (\<lambda>_. [])(1 := [0])\<rparr>)
   \<and> api_tap 1 (replicate 201 CHR ''a'') 0 0 (\<lambda>_. [])
        (engine0\<lparr>recent_nonces := (\<lambda>_. {})(2 := {''x''})\<rparr>)
     = (Failed ''Bad nonce'', engine0\<lparr>recent_nonces := (\<lambda>_. {})(2 := {''x''}),
                      rate_windows := (\<lambda>_. [])(1 := [0])\<rparr>)
   \<and> can_tap_now 2 0 (engine0\<lparr>recent_nonces := (\<lambda>_. {})(2 := {''x''})\<rparr>)
     = (True, engine0\<lparr>recent_nonces := (\<lambda>_. {})(2 := {''x''}),
                      rate_windows := (\<lambda>_. [])(2 := [0])\<rparr>)
   \<and> api_tap 2 ''x'' 0 0 (\<lambda>_. []) (engine0\<lparr>recent_nonces := (\<lambda>_. {})(2 := {''x''})\<rparr>)
     = (Failed ''Replay blocked'', engine0\<lparr>recent_nonces := (\<lambda>_. {})(2 := {''x''}),
                      rate_windows := (\<lambda>_. [])(2 := [0])\<rparr>)
   \<and> fst (api_tap 1 ''x'' 0 0 (\<lambda>_. []) (engine0\<lparr>recent_nonces := (\<lambda>_. {})(2 := {''x''})\<rparr>))
     = Tapped 1 499 500
   \<and> ''x'' \<in> recent_nonces
       (snd (api_tap 1 ''x'' 0 0 (\<lambda>_. []) (engine0\<lparr>recent_nonces := (\<lambda>_. {})(2 := {''x''})\<rparr>))) 1
   \<and> recent_nonces
       (snd (api_tap 1 ''x'' 0 0 (\<lambda>_. []) (engine0\<lparr>recent_nonces := (\<lambda>_. {})(2 := {''x''})\<rparr>))) 2
     = {''x''}"
proof -
  let ?s = "engine0\<lparr>recent_nonces := (\<lambda>_. {})(2 := {''x''})\<rparr>"
  let ?s1 = "engine0\<lparr>recent_nonces := (\<lambda>_. {})(2 := {''x''}),
                      rate_windows := (\<lambda>_. [])(1 := [0])\<rparr>"
  let ?s2 = "engine0\<lparr>recent_nonces := (\<lambda>_. {})(2 := {''x''}),
                      rate_windows := (\<lambda>_. [])(2 := [0])\<rparr>"
  have c1: "can_tap_now 1 0 ?s = (True, ?s1)"
    by (simp add: can_tap_now_window engine0_def)
  have c2: "can_tap_now 2 0 ?s = (True, ?s2)"
    by (simp add: can_tap_now_window engine0_def)
  note e = nonce_admission [OF c1, where n = "[]" and now = 0 and lo = "\<lambda>_. []"]
  note l = nonce_admission [OF c1, where n = "replicate 201 CHR ''a''" and now = 0
      and lo = "\<lambda>_. []"]
  note r = nonce_admission [OF c2, where n = "''x''" and now = 0 and lo = "\<lambda>_. []"]
  note a = nonce_admission [OF c1, where n = "''x''" and now = 0 and lo = "\<lambda>_. []"]
  have E: "api_tap 1 [] 0 0 (\<lambda>_. []) ?s = (Failed ''Bad nonce'', ?s1)"
    using e by simp
  have L: "api_tap 1 (replicate 201 CHR ''a'') 0 0 (\<lambda>_. []) ?s = (Failed ''Bad nonce'', ?s1)"
    using l by simp
  have R: "api_tap 2 ''x'' 0 0 (\<lambda>_. []) ?s = (Failed ''Replay blocked'', ?s2)"
    using r by (simp add: engine0_def)
  have fresh: "''x'' \<noteq> [] \<and> length ''x'' \<le> 200 \<and> ''x'' \<notin> recent_nonces ?s 1"
    by (simp add: engine0_def)
  have small: "finite (recent_nonces ?s 1) \<and> card (recent_nonces ?s 1) < 200"
    by (simp add: engine0_def)
  have A: "''x'' \<in> recent_nonces (snd (api_tap 1 ''x'' 0 0 (\<lambda>_. []) ?s)) 1"
    using a fresh small by blast
  have "\<forall>c'. c' \<noteq> 1 \<longrightarrow>
      recent_nonces (snd (api_tap 1 ''x'' 0 0 (\<lambda>_. []) ?s)) c' = recent_nonces ?s c'"
    using a fresh by blast
  then have O: "recent_nonces (snd (api_tap 1 ''x'' 0 0 (\<lambda>_. []) ?s)) 2 = {''x''}"
    by (simp add: engine0_def)
  have T: "fst (api_tap 1 ''x'' 0 0 (\<lambda>_. []) ?s) = Tapped 1 499 500"
    by (simp add: engine_eval)
  show ?thesis using c1 c2 E L R A O T by simp
qed

subsection \<open>Rejections\<close>

lemma can_tap_now_tables:
  assumes "can_tap_now cid tick s = (adm, s1)"
  shows "users s1 = users s \<and> game_users s1 = game_users s \<and> game_taps s1 = game_taps s"
  using can_tap_now_frame(1,2) [of cid tick s] game_users_can_tap_now [of cid tick s]
  by (simp add: assms)














subsection \<open>Accepted taps\<close>

lemma db_fetchone_map:
  assumes "db_fetchone cid tbl = Some r" and "\<And>x. chat_id (f x) = chat_id x"
  shows "db_fetchone cid (map (\<lambda>x. if chat_id x = cid then f x else x) tbl) = Some (f r)"
  using assms(1)
proof (induction tbl)
  case Nil
  then show ?case by (simp add: db_fetchone_def)
next
  case (Cons a tbl)
  then show ?case using assms(2) by (auto simp: db_fetchone_def)
qed

text \<open>The row an accepted tap leaves: coins, energy, checkpoint and streak are rewritten.\<close>

lemma api_tap_accepted:
  assumes c: "can_tap_now cid tick s = (True, s1)"
    and n: "n \<noteq> []" "length n \<le> 200" "n \<notin> recent_nonces s cid"
    and g: "db_fetchone cid (game_users s) = Some gu"
    and ce: "compute_energy gu now = (e, cp)" and e: "1 \<le> e"
    and su: "streak_update gu True now = (ns, sd)"
  shows "\<exists>c2 e2 m2 s8. api_tap cid n now tick lo s = (Tapped c2 e2 m2, s8)
     \<and> game_users s8 =
         map (\<lambda>r. if chat_id r = cid
                   then r\<lparr>coins := Some (coalesce (coins r) 0 + boost_multiplier gu now),
                          last_tap_at := Some now, energy := Some (e - 1),
                          energy_updated_at := Some cp, daily_streak := Some ns,
                          last_streak_at := Some sd\<rparr>
                   else r) (game_users s)
     \<and> game_taps s8 = game_taps s @
          [\<lparr>chat_id = cid, ts = now, delta = boost_multiplier gu now, nonce = n\<rparr>]"
proof -
  let ?s3 = "clean_old_nonces lo cid
       (s1\<lparr>recent_nonces := (recent_nonces s1)(cid := insert n (recent_nonces s1 cid))\<rparr>)"
  let ?f = "\<lambda>r. r\<lparr>coins := Some (coalesce (coins r) 0 + boost_multiplier gu now),
                          last_tap_at := Some now, energy := Some (e - 1),
                          energy_updated_at := Some cp, daily_streak := Some ns,
                          last_streak_at := Some sd\<rparr>"
  have t3: "game_users ?s3 = game_users s" "game_taps ?s3 = game_taps s"
    using can_tap_now_tables [OF c]
    by (simp_all add: game_users_clean_old_nonces clean_old_nonces_frame)
  have g3: "get_game_user cid now ?s3 = (gu, ?s3)"
    using g by (simp add: get_game_user_cases t3)
  let ?s7 = "update_game_user_fields cid
          (\<lambda>r. r\<lparr>daily_streak := Some ns, last_streak_at := Some sd\<rparr>)
          (update_game_user_fields cid
             (\<lambda>r. r\<lparr>energy := Some (e - 1), energy_updated_at := Some cp\<rparr>)
             (add_tap cid (boost_multiplier gu now) n now ?s3))"
  have u7: "game_users ?s7 = map (\<lambda>r. if chat_id r = cid then ?f r else r) (game_users s)"
    by (simp add: update_game_user_fields_def add_tap_def Let_def t3 comp_def cong: if_cong)
  have taps7: "game_taps ?s7 = game_taps s @
          [\<lparr>chat_id = cid, ts = now, delta = boost_multiplier gu now, nonce = n\<rparr>]"
    by (simp add: update_frame add_tap_frame t3)
  have "db_fetchone cid (game_users ?s7) = Some (?f gu)"
    unfolding u7 using g by (rule db_fetchone_map) simp
  then have g7: "get_game_user cid now ?s7 = (?f gu, ?s7)"
    by (simp only: get_game_user_cases option.case)
  obtain e2 cp2 where ce2: "compute_energy (?f gu) now = (e2, cp2)" by (meson surj_pair)
  have n1: "n \<notin> recent_nonces s1 cid"
    using n(3) can_tap_now_frame(3) [of cid tick s] by (simp add: c)
  have "api_tap cid n now tick lo s
      = (Tapped (int_or (coins (?f gu)) 0) e2 (int_or (max_energy (?f gu)) 500), ?s7)"
    unfolding api_tap_unfold [OF c g3 ce su g7 ce2] using n n1 e by simp
  then show ?thesis using u7 taps7 by blast
qed

text \<open>
  Claim C6. The multiplier is an integer of at least 1: each of the two timed boosts counts 2
  while its expiry is strictly after \<open>now\<close> and 1 otherwise, and the multiplier is the maximum
  of the two, so it is 2 when either or both are active and 1 when neither is. An accepted tap
  records a scoring event whose delta is that multiplier and adds it to the account's coins.
\<close>

theorem boost_multiplier_is_max:
  "boost_multiplier gu now =
      max (case multitap_until gu of Some mt \<Rightarrow> if mt > now then 2 else 1 | None \<Rightarrow> 1)
          (case autotap_until gu of Some au \<Rightarrow> if au > now then 2 else 1 | None \<Rightarrow> 1)
   \<and> 1 \<le> boost_multiplier gu now
   \<and> boost_multiplier (gu\<lparr>multitap_until := Some (now + 1), autotap_until := Some (now + 1)\<rparr>)
        now = 2
   \<and> boost_multiplier (gu\<lparr>multitap_until := Some (now + minutes 1), autotap_until := None\<rparr>)
        now = 2
   \<and> boost_multiplier (gu\<lparr>multitap_until := Some now, autotap_until := Some (now - 1)\<rparr>)
        now = 1
   \<and> (can_tap_now cid tick s = (True, s1) \<and> n \<noteq> [] \<and> length n \<le> 200
       \<and> n \<notin> recent_nonces s cid \<and> db_fetchone cid (game_users s) = Some gu
       \<and> 1 \<le> fst (compute_energy gu now) \<longrightarrow>
       game_taps (snd (api_tap cid n now tick lo s)) = game_taps s @
          [\<lparr>chat_id = cid, ts = now, delta = boost_multiplier gu now, nonce = n\<rparr>]
       \<and> (\<exists>r. db_fetchone cid (game_users (snd (api_tap cid n now tick lo s))) = Some r
             \<and> coins r = Some (coalesce (coins gu) 0 + boost_multiplier gu now)))"
proof (intro conjI impI)
  show "boost_multiplier gu now =
      max (case multitap_until gu of Some mt \<Rightarrow> if mt > now then 2 else 1 | None \<Rightarrow> 1)
          (case autotap_until gu of Some au \<Rightarrow> if au > now then 2 else 1 | None \<Rightarrow> 1)"
    by (simp add: boost_multiplier_def Let_def split: option.splits)
  show "1 \<le> boost_multiplier gu now"
    by (simp add: boost_multiplier_def Let_def split: option.splits)
  show "boost_multiplier (gu\<lparr>multitap_until := Some (now + 1), autotap_until := Some (now + 1)\<rparr>)
        now = 2"
    by (simp add: boost_multiplier_def)
  show "boost_multiplier (gu\<lparr>multitap_until := Some (now + minutes 1), autotap_until := None\<rparr>)
        now = 2"
    by (simp add: boost_multiplier_def minutes_def seconds_def)
  show "boost_multiplier (gu\<lparr>multitap_until := Some now, autotap_until := Some (now - 1)\<rparr>)
        now = 1"
    by (simp add: boost_multiplier_def)
next
  assume a: "can_tap_now cid tick s = (True, s1) \<and> n \<noteq> [] \<and> length n \<le> 200
       \<and> n \<notin> recent_nonces s cid \<and> db_fetchone cid (game_users s) = Some gu
       \<and> 1 \<le> fst (compute_energy gu now)"
  obtain e cp where ce: "compute_energy gu now = (e, cp)" by (meson surj_pair)
  obtain ns sd where su: "streak_update gu True now = (ns, sd)" by (meson surj_pair)
  have e: "1 \<le> e" using a ce by simp
  let ?f = "\<lambda>r. r\<lparr>coins := Some (coalesce (coins r) 0 + boost_multiplier gu now),
                          last_tap_at := Some now, energy := Some (e - 1),
                          energy_updated_at := Some cp, daily_streak := Some ns,
                          last_streak_at := Some sd\<rparr>"
  from a api_tap_accepted [OF _ _ _ _ _ ce e su, where cid = cid and tick = tick and s = s
      and ?s1.0 = s1 and n = n and lo = lo]
  obtain c2 e2 m2 s8 where r: "api_tap cid n now tick lo s = (Tapped c2 e2 m2, s8)"
    and gu8: "game_users s8 = map (\<lambda>r. if chat_id r = cid then ?f r else r) (game_users s)"
    and taps: "game_taps s8 = game_taps s @
          [\<lparr>chat_id = cid, ts = now, delta = boost_multiplier gu now, nonce = n\<rparr>]"
    by blast
  show "game_taps (snd (api_tap cid n now tick lo s)) = game_taps s @
          [\<lparr>chat_id = cid, ts = now, delta = boost_multiplier gu now, nonce = n\<rparr>]"
    using r taps by simp
  have "db_fetchone cid (game_users s8) = Some (?f gu)"
    unfolding gu8 using a by (intro db_fetchone_map) simp_all
  then show "\<exists>r. db_fetchone cid (game_users (snd (api_tap cid n now tick lo s))) = Some r
             \<and> coins r = Some (coalesce (coins gu) 0 + boost_multiplier gu now)"
    using r by simp
qed


theorem boost_multiplier_is_max_witness:
  "can_tap_now 1 0
      (engine_of [(example_row 1 10 5 0)\<lparr>multitap_until := Some 60000000,
                                         autotap_until := Some 30000000\<rparr>])
     = (True, (engine_of [(example_row 1 10 5 0)\<lparr>multitap_until := Some 60000000,
                                         autotap_until := Some 30000000\<rparr>])
                \<lparr>rate_windows := (\<lambda>_. [])(1 := [0])\<rparr>)
   \<and> ''a'' \<noteq> [] \<and> length ''a'' \<le> 200
   \<and> ''a'' \<notin> recent_nonces
        (engine_of [(example_row 1 10 5 0)\<lparr>multitap_until := Some 60000000,
                                         autotap_until := Some 30000000\<rparr>]) 1
   \<and> db_fetchone 1 (game_users
        (engine_of [(example_row 1 10 5 0)\<lparr>multitap_until := Some 60000000,
                                         autotap_until := Some 30000000\<rparr>]))
       = Some ((example_row 1 10 5 0)\<lparr>multitap_until := Some 60000000,
                                         autotap_until := Some 30000000\<rparr>)
   \<and> 1 \<le> fst (compute_energy ((example_row 1 10 5 0)\<lparr>multitap_until := Some 60000000,
                                         autotap_until := Some 30000000\<rparr>) 1000000)
   \<and> game_taps (snd (api_tap 1 ''a'' 1000000 0 (\<lambda>_. [])
        (engine_of [(example_row 1 10 5 0)\<lparr>multitap_until := Some 60000000,
                                         autotap_until := Some 30000000\<rparr>])))
       = [\<lparr>chat_id = 1, ts = 1000000, delta = 2, nonce = ''a''\<rparr>]
   \<and> 1 \<le> fst (compute_energy ((example_row 1 10 5 0)\<lparr>multitap_until := Some 60000000,
                                         autotap_until := Some 30000000\<rparr>) 60000000)
   \<and> game_taps (snd (api_tap 1 ''a'' 60000000 0 (\<lambda>_. [])
        (engine_of [(example_row 1 10 5 0)\<lparr>multitap_until := Some 60000000,
                                         autotap_until := Some 30000000\<rparr>])))
       = [\<lparr>chat_id = 1, ts = 60000000, delta = 1, nonce = ''a''\<rparr>]"
proof -
  let ?r = "(example_row 1 10 5 0)\<lparr>multitap_until := Some 60000000,
                                         autotap_until := Some 30000000\<rparr>"
  let ?s = "engine_of [?r]"
  have c: "can_tap_now 1 0 ?s = (True, ?s\<lparr>rate_windows := (\<lambda>_. [])(1 := [0])\<rparr>)"
    by (simp add: can_tap_now_window engine_of_def engine0_def)
  have n: "''a'' \<noteq> [] \<and> length ''a'' \<le> 200 \<and> ''a'' \<notin> recent_nonces ?s 1"
    by (simp add: engine_of_def engine0_def)
  have g: "db_fetchone 1 (game_users ?s) = Some ?r"
    by (simp add: db_fetchone_def engine_of_def example_row_def new_game_user_def)
  have e1: "1 \<le> fst (compute_energy ?r 1000000)"
    and e2: "1 \<le> fst (compute_energy ?r 60000000)"
    by (simp_all add: engine_eval)
  have m1: "boost_multiplier ?r 1000000 = 2" and m2: "boost_multiplier ?r 60000000 = 1"
    by (simp_all add: engine_eval)
  note t1 = boost_multiplier_is_max [where gu = ?r and now = 1000000 and cid = 1 and tick = 0
      and s = ?s and ?s1.0 = "?s\<lparr>rate_windows := (\<lambda>_. [])(1 := [0])\<rparr>" and n = "''a''"
      and lo = "\<lambda>_. []"]
  note t2 = boost_multiplier_is_max [where gu = ?r and now = 60000000 and cid = 1 and tick = 0
      and s = ?s and ?s1.0 = "?s\<lparr>rate_windows := (\<lambda>_. [])(1 := [0])\<rparr>" and n = "''a''"
      and lo = "\<lambda>_. []"]
  have a1: "game_taps (snd (api_tap 1 ''a'' 1000000 0 (\<lambda>_. []) ?s)) = game_taps ?s @
          [\<lparr>chat_id = 1, ts = 1000000, delta = boost_multiplier ?r 1000000, nonce = ''a''\<rparr>]"
    using t1 c n g e1 by blast
  have a2: "game_taps (snd (api_tap 1 ''a'' 60000000 0 (\<lambda>_. []) ?s)) = game_taps ?s @
          [\<lparr>chat_id = 1, ts = 60000000, delta = boost_multiplier ?r 60000000, nonce = ''a''\<rparr>]"
    using t2 c n g e2 by blast
  have taps0: "game_taps ?s = []" by (simp add: engine_of_def engine0_def)
  show ?thesis
    using c n g e1 e2 a1 a2 unfolding m1 m2 taps0 by simp
qed

subsection \<open>The permanent upgrade\<close>

text \<open>
  Claim C7 fails on the code at a repeated activation. \<open>activate_boost\<close> keeps no record of the
  upgrade and checks only the price, so an account with 5000 coins buys it twice: 2500 coins
  and 100 more \<open>max_energy\<close> each time, from 500 to 600 to 700. The upgrade leaves the expiry
  columns and hence the multiplier as they were.
\<close>

theorem maxenergy_upgrade_repeats:
  "api_boost 1 ''maxenergy'' 0 (engine_of [example_row 1 5000 500 0])
     = (Boosted, engine_of [(example_row 1 2500 500 0)\<lparr>max_energy := Some 600\<rparr>])
   \<and> api_boost 1 ''maxenergy'' 0 (engine_of [(example_row 1 2500 500 0)\<lparr>max_energy := Some 600\<rparr>])
     = (Boosted, engine_of [(example_row 1 0 500 0)\<lparr>max_energy := Some 700\<rparr>])
   \<and> boost_multiplier ((example_row 1 0 500 0)\<lparr>max_energy := Some 700\<rparr>) 0 = 1"
  by (simp add: engine_eval)

subsection \<open>The daily streak\<close>

text \<open>
  Claim C8. On a tap the streak grows by one when the last streak date is yesterday, stays when
  it is today, and is reset to 1 otherwise (an older or missing date); the new last streak
  date is today. Without a tap the streak is returned as stored (a \<^verbatim>\<open>NULL\<close> streak reads as 0).
  An accepted tap stores the new streak and today's date in the account's row.
\<close>

theorem streak_update_rules:
  "streak_update gu True now =
     (if last_streak_at gu = Some (date_of now - 1) then int_or (daily_streak gu) 0 + 1
      else if last_streak_at gu = Some (date_of now) then int_or (daily_streak gu) 0
      else 1,
      date_of now)
   \<and> fst (streak_update gu False now) = int_or (daily_streak gu) 0
   \<and> int_or (Some k) 0 = k \<and> int_or None 0 = 0
   \<and> streak_update (gu\<lparr>daily_streak := Some k, last_streak_at := Some (date_of now - 1)\<rparr>)
         True now = (k + 1, date_of now)
   \<and> streak_update (gu\<lparr>daily_streak := Some k, last_streak_at := Some (date_of now)\<rparr>)
         True now = (k, date_of now)
   \<and> streak_update (gu\<lparr>daily_streak := Some k, last_streak_at := Some (date_of now - 3)\<rparr>)
         True now = (1, date_of now)
   \<and> streak_update (gu\<lparr>daily_streak := Some k, last_streak_at := None\<rparr>)
         True now = (1, date_of now)
   \<and> (can_tap_now cid tick s = (True, s1) \<and> n \<noteq> [] \<and> length n \<le> 200
       \<and> n \<notin> recent_nonces s cid \<and> db_fetchone cid (game_users s) = Some gu
       \<and> 1 \<le> fst (compute_energy gu now) \<longrightarrow>
       (\<exists>r. db_fetchone cid (game_users (snd (api_tap cid n now tick lo s))) = Some r
             \<and> daily_streak r = Some (fst (streak_update gu True now))
             \<and> last_streak_at r = Some (date_of now)))"
proof (intro conjI impI)
  show "streak_update gu True now =
     (if last_streak_at gu = Some (date_of now - 1) then int_or (daily_streak gu) 0 + 1
      else if last_streak_at gu = Some (date_of now) then int_or (daily_streak gu) 0
      else 1,
      date_of now)"
    by (simp add: streak_update_def Let_def)
  show "fst (streak_update gu False now) = int_or (daily_streak gu) 0"
    by (simp add: streak_update_def Let_def)
  show "int_or (Some k) 0 = k" "int_or None 0 = 0"
    by (simp_all add: int_or_def)
  show "streak_update (gu\<lparr>daily_streak := Some k, last_streak_at := Some (date_of now - 1)\<rparr>)
         True now = (k + 1, date_of now)"
    by (simp add: streak_update_def Let_def int_or_def)
  show "streak_update (gu\<lparr>daily_streak := Some k, last_streak_at := Some (date_of now)\<rparr>)
         True now = (k, date_of now)"
    by (simp add: streak_update_def Let_def int_or_def)
  show "streak_update (gu\<lparr>daily_streak := Some k, last_streak_at := Some (date_of now - 3)\<rparr>)
         True now = (1, date_of now)"
    by (simp add: streak_update_def Let_def)
  show "streak_update (gu\<lparr>daily_streak := Some k, last_streak_at := None\<rparr>)
         True now = (1, date_of now)"
    by (simp add: streak_update_def Let_def)
next
  assume a: "can_tap_now cid tick s = (True, s1) \<and> n \<noteq> [] \<and> length n \<le> 200
       \<and> n \<notin> recent_nonces s cid \<and> db_fetchone cid (game_users s) = Some gu
       \<and> 1 \<le> fst (compute_energy gu now)"
  obtain e cp where ce: "compute_energy gu now = (e, cp)" by (meson surj_pair)
  obtain ns sd where su: "streak_update gu True now = (ns, sd)" by (meson surj_pair)
  have sd: "sd = date_of now" using su by (simp add: streak_update_def Let_def split: if_splits)
  have e: "1 \<le> e" using a ce by simp
  let ?f = "\<lambda>r. r\<lparr>coins := Some (coalesce (coins r) 0 + boost_multiplier gu now),
                          last_tap_at := Some now, energy := Some (e - 1),
                          energy_updated_at := Some cp, daily_streak := Some ns,
                          last_streak_at := Some sd\<rparr>"
  from a api_tap_accepted [OF _ _ _ _ _ ce e su, where cid = cid and tick = tick and s = s
      and ?s1.0 = s1 and n = n and lo = lo]
  obtain c2 e2 m2 s8 where r: "api_tap cid n now tick lo s = (Tapped c2 e2 m2, s8)"
    and gu8: "game_users s8 = map (\<lambda>r. if chat_id r = cid then ?f r else r) (game_users s)"
    by blast
  have "db_fetchone cid (game_users s8) = Some (?f gu)"
    unfolding gu8 using a by (intro db_fetchone_map) simp_all
  then show "\<exists>r. db_fetchone cid (game_users (snd (api_tap cid n now tick lo s))) = Some r
             \<and> daily_streak r = Some (fst (streak_update gu True now))
             \<and> last_streak_at r = Some (date_of now)"
    using r su sd by simp
qed

theorem streak_update_rules_witness:
  "can_tap_now 1 0
      (engine_of [(example_row 1 10 5 0)\<lparr>daily_streak := Some 4, last_streak_at := Some 0\<rparr>])
     = (True, (engine_of [(example_row 1 10 5 0)\<lparr>daily_streak := Some 4,
                                                last_streak_at := Some 0\<rparr>])
                \<lparr>rate_windows := (\<lambda>_. [])(1 := [0])\<rparr>)
   \<and> ''a'' \<noteq> [] \<and> length ''a'' \<le> 200
   \<and> ''a'' \<notin> recent_nonces
        (engine_of [(example_row 1 10 5 0)\<lparr>daily_streak := Some 4, last_streak_at := Some 0\<rparr>]) 1
   \<and> db_fetchone 1 (game_users
        (engine_of [(example_row 1 10 5 0)\<lparr>daily_streak := Some 4, last_streak_at := Some 0\<rparr>]))
       = Some ((example_row 1 10 5 0)\<lparr>daily_streak := Some 4, last_streak_at := Some 0\<rparr>)
   \<and> 1 \<le> fst (compute_energy
        ((example_row 1 10 5 0)\<lparr>daily_streak := Some 4, last_streak_at := Some 0\<rparr>)
        86400000000)
   \<and> date_of 86400000000 = 1
   \<and> streak_update ((example_row 1 10 5 0)\<lparr>daily_streak := Some 4, last_streak_at := Some 0\<rparr>)
        True 86400000000 = (5, 1)
   \<and> (\<exists>r. db_fetchone 1 (game_users (snd (api_tap 1 ''a'' 86400000000 0 (\<lambda>_. [])
        (engine_of [(example_row 1 10 5 0)\<lparr>daily_streak := Some 4,
                                           last_streak_at := Some 0\<rparr>])))) = Some r
       \<and> daily_streak r = Some 5 \<and> last_streak_at r = Some 1)"
proof -
  let ?r = "(example_row 1 10 5 0)\<lparr>daily_streak := Some 4, last_streak_at := Some 0\<rparr>"
  let ?s = "engine_of [?r]"
  have c: "can_tap_now 1 0 ?s = (True, ?s\<lparr>rate_windows := (\<lambda>_. [])(1 := [0])\<rparr>)"
    by (simp add: can_tap_now_window engine_of_def engine0_def)
  have n: "''a'' \<noteq> [] \<and> length ''a'' \<le> 200 \<and> ''a'' \<notin> recent_nonces ?s 1"
    by (simp add: engine_of_def engine0_def)
  have g: "db_fetchone 1 (game_users ?s) = Some ?r"
    by (simp add: db_fetchone_def engine_of_def example_row_def new_game_user_def)
  have e1: "1 \<le> fst (compute_energy ?r 86400000000)"
    by (simp add: engine_eval)
  have d: "date_of 86400000000 = 1" by (simp add: date_of_def)
  note t = streak_update_rules [where gu = ?r and now = 86400000000 and cid = 1 and tick = 0
      and s = ?s and ?s1.0 = "?s\<lparr>rate_windows := (\<lambda>_. [])(1 := [0])\<rparr>" and n = "''a''"
      and lo = "\<lambda>_. []" and k = 4]
  have su: "streak_update ?r True 86400000000 = (5, 1)"
    using t by (simp add: d example_row_def new_game_user_def int_or_def)
  have "\<exists>r. db_fetchone 1 (game_users (snd (api_tap 1 ''a'' 86400000000 0 (\<lambda>_. []) ?s))) = Some r
       \<and> daily_streak r = Some (fst (streak_update ?r True 86400000000))
       \<and> last_streak_at r = Some (date_of 86400000000)"
    using t c n g e1 by blast
  then show ?thesis
    using c n g e1 d su by simp
qed

subsection \<open>Leaderboard\<close>

lemma insort_ranked:
  assumes "sorted_wrt (\<lambda>a b. ranks_before b a) zs" and "\<forall>y \<in> set zs. chat_id y \<le> chat_id x"
  shows "sorted_wrt (\<lambda>a b. ranks_before b a) (insort_key score x zs)"
  using assms
proof (induction zs)
  case Nil
  then show ?case by simp
next
  case (Cons z zs)
  show ?case
  proof (cases "score x \<le> score z")
    case True
    have "ranks_before y x" if "y \<in> set (z # zs)" for y
    proof -
      have "score z \<le> score y"
        using that Cons.prems(1) by (auto simp: ranks_before_def)
      then have "score x \<le> score y" using True by simp
      moreover have "chat_id y \<le> chat_id x" using that Cons.prems(2) by auto
      ultimately show ?thesis by (auto simp: ranks_before_def)
    qed
    then show ?thesis using True Cons.prems(1) by simp
  next
    case False
    then have "ranks_before x z" by (simp add: ranks_before_def not_le)
    moreover have "sorted_wrt (\<lambda>a b. ranks_before b a) (insort_key score x zs)"
      using Cons by simp
    ultimately show ?thesis using False Cons.prems(1) by (auto simp: set_insort_key)
  qed
qed

lemma sort_key_ranked:
  assumes "sorted_wrt (\<lambda>a b. chat_id b \<le> chat_id a) xs"
  shows "sorted_wrt (\<lambda>a b. ranks_before b a) (sort_key score xs)"
  using assms
proof (induction xs)
  case Nil
  then show ?case by simp
next
  case (Cons x xs)
  then have "sorted_wrt (\<lambda>a b. ranks_before b a) (sort_key score xs)"
    and "\<forall>y \<in> set (sort_key score xs). chat_id y \<le> chat_id x"
    by simp_all
  then show ?case by (simp add: insort_ranked)
qed

lemma order_by_score_desc_ranked: "sorted_wrt ranks_before (order_by_score_desc rows)"
proof -
  have "sorted (map chat_id (sort_key chat_id rows))" by (rule sorted_sort_key)
  then have "sorted_wrt (\<lambda>a b. chat_id a \<le> chat_id b) (sort_key chat_id rows)"
    by (simp add: sorted_map)
  then have "sorted_wrt (\<lambda>a b. chat_id b \<le> chat_id a) (rev (sort_key chat_id rows))"
    by (simp add: sorted_wrt_rev)
  then have "sorted_wrt (\<lambda>a b. ranks_before b a) (sort_key score (rev (sort_key chat_id rows)))"
    by (rule sort_key_ranked)
  then show ?thesis by (simp add: order_by_score_desc_def sorted_wrt_rev)
qed

lemma ranks_before_score: "ranks_before a b \<Longrightarrow> score b \<le> score a"
  by (auto simp: ranks_before_def)

lemma set_order_by_score_desc: "set (order_by_score_desc rows) = set rows"
  by (simp add: order_by_score_desc_def)

lemma length_order_by_score_desc: "length (order_by_score_desc rows) = length rows"
  by (simp add: order_by_score_desc_def)

lemma distinct_order_by_score_desc:
  "distinct (map chat_id rows) \<Longrightarrow> distinct (map chat_id (order_by_score_desc rows))"
proof -
  have "mset (map chat_id (order_by_score_desc rows)) = mset (map chat_id rows)"
    by (simp add: order_by_score_desc_def)
  then show "distinct (map chat_id rows) \<Longrightarrow> distinct (map chat_id (order_by_score_desc rows))"
    using mset_eq_imp_distinct_iff by blast
qed

lemma ranked_take:
  shows "sorted_wrt ranks_before (take n (order_by_score_desc rows))"
    and "length (take n (order_by_score_desc rows)) = min n (length rows)"
    and "set (take n (order_by_score_desc rows)) \<subseteq> set rows"
    and "x \<in> set (take n (order_by_score_desc rows)) \<Longrightarrow> y \<in> set rows \<Longrightarrow>
         y \<notin> set (take n (order_by_score_desc rows)) \<Longrightarrow> ranks_before x y"
    and "distinct (map chat_id rows) \<Longrightarrow>
         distinct (map chat_id (take n (order_by_score_desc rows)))"
    and "length rows \<le> n \<Longrightarrow> set (take n (order_by_score_desc rows)) = set rows"
proof -
  let ?D = "order_by_score_desc rows"
  note s = order_by_score_desc_ranked [of rows]
  show "sorted_wrt ranks_before (take n ?D)"
    using s by (rule sorted_wrt_take)
  show "length (take n ?D) = min n (length rows)"
    by (simp add: length_order_by_score_desc min.commute)
  show "set (take n ?D) \<subseteq> set rows"
    using set_take_subset [of n ?D] by (simp add: set_order_by_score_desc)
  show "ranks_before x y"
    if "x \<in> set (take n ?D)" "y \<in> set rows" "y \<notin> set (take n ?D)"
  proof -
    have "set ?D = set (take n ?D) \<union> set (drop n ?D)"
      by (metis append_take_drop_id set_append)
    then have y: "y \<in> set (drop n ?D)"
      using that(2,3) by (simp add: set_order_by_score_desc)
    have "sorted_wrt ranks_before (take n ?D @ drop n ?D)"
      using s by simp
    then have "\<forall>a \<in> set (take n ?D). \<forall>b \<in> set (drop n ?D). ranks_before a b"
      unfolding sorted_wrt_append by blast
    then show ?thesis using that(1) y by blast
  qed
  show "distinct (map chat_id (take n ?D))" if "distinct (map chat_id rows)"
  proof -
    have "distinct (take n (map chat_id ?D))"
      using distinct_order_by_score_desc [OF that] by (rule distinct_take)
    then show ?thesis by (simp add: take_map)
  qed
  show "set (take n ?D) = set rows" if "length rows \<le> n"
    using that by (simp add: length_order_by_score_desc set_order_by_score_desc)
qed


lemma leaderboard_all:
  "leaderboard ''all'' limit now s =
     take limit (order_by_score_desc
       (map (\<lambda>g. \<lparr>chat_id = chat_id g, username = joined_username s (chat_id g),
                   score = coins g\<rparr>) (game_users s)))"
  by (simp add: leaderboard_def)

lemma leaderboard_window:
  assumes "rng \<noteq> ''all''"
  shows "leaderboard rng limit now s =
     take limit (order_by_score_desc
       (map (\<lambda>c. \<lparr>chat_id = c, username = joined_username s c,
                   score = Some (window_score_spec s
                     (if rng = ''day'' then now - days 1 else now - days 7) c)\<rparr>)
         (remdups (map chat_id
            (filter (\<lambda>t. (if rng = ''day'' then now - days 1 else now - days 7) \<le> ts t)
               (game_taps s))))))"
  using assms by (simp add: leaderboard_def Let_def window_score_spec_def conj_commute)

lemma window_score_filtered:
  "window_score_spec (s\<lparr>game_taps := filter (\<lambda>t. since \<le> ts t) (game_taps s)\<rparr>) since c
     = window_score_spec s since c"
  by (simp add: window_score_spec_def conj_commute cong: conj_cong)

lemma joined_username_taps: "joined_username (s\<lparr>game_taps := taps\<rparr>) c = joined_username s c"
  by (simp add: joined_username_def)

lemma leaderboard_window_filtered:
  assumes "rng \<noteq> ''all''"
    and "since = (if rng = ''day'' then now - days 1 else now - days 7)"
  shows "leaderboard rng limit now (s\<lparr>game_taps := filter (\<lambda>t. since \<le> ts t) (game_taps s)\<rparr>)
         = leaderboard rng limit now s"
  unfolding leaderboard_window [OF assms(1)] assms(2) [symmetric]
  by (simp add: window_score_filtered joined_username_taps)

lemma leaderboard_window_rows:
  assumes "rng \<noteq> ''all''"
    and "since = (if rng = ''day'' then now - days 1 else now - days 7)"
  shows "distinct (map chat_id (leaderboard rng limit now s))"
    and "length (leaderboard rng limit now s)
         = min limit (card (chat_id ` set (filter (\<lambda>t. since \<le> ts t) (game_taps s))))"
    and "card (chat_id ` set (filter (\<lambda>t. since \<le> ts t) (game_taps s))) \<le> limit \<Longrightarrow>
         chat_id ` set (leaderboard rng limit now s)
         = chat_id ` set (filter (\<lambda>t. since \<le> ts t) (game_taps s))"
    and "x \<in> set (leaderboard rng limit now s) \<Longrightarrow>
           score x = Some (window_score_spec s since (chat_id x))
         \<and> (\<exists>t \<in> set (game_taps s). chat_id t = chat_id x \<and> since \<le> ts t)"
    and "x \<in> set (leaderboard rng limit now s) \<Longrightarrow> t \<in> set (game_taps s) \<Longrightarrow>
         since \<le> ts t \<Longrightarrow> chat_id t \<notin> chat_id ` set (leaderboard rng limit now s) \<Longrightarrow>
         Some (window_score_spec s since (chat_id t)) < score x
         \<or> (Some (window_score_spec s since (chat_id t)) = score x \<and> chat_id x \<le> chat_id t)"
proof -
  let ?mk = "\<lambda>c. \<lparr>chat_id = c, username = joined_username s c,
                   score = Some (window_score_spec s since c)\<rparr>"
  let ?cs = "remdups (map chat_id (filter (\<lambda>t. since \<le> ts t) (game_taps s)))"
  let ?rows = "map ?mk ?cs"
  have L: "leaderboard rng limit now s = take limit (order_by_score_desc ?rows)"
    unfolding leaderboard_window [OF assms(1)] assms(2) [symmetric] ..
  have ids: "map chat_id ?rows = ?cs" by (simp add: comp_def)
  have d: "distinct (map chat_id ?rows)" unfolding ids by simp
  show "distinct (map chat_id (leaderboard rng limit now s))"
    unfolding L using d by (rule ranked_take(5))
  have len: "length ?rows = card (chat_id ` set (filter (\<lambda>t. since \<le> ts t) (game_taps s)))"
    by (simp add: length_remdups_card_conv)
  show "length (leaderboard rng limit now s)
         = min limit (card (chat_id ` set (filter (\<lambda>t. since \<le> ts t) (game_taps s))))"
    unfolding L ranked_take(2) len ..
  have ids_set: "chat_id ` set ?rows = chat_id ` set (filter (\<lambda>t. since \<le> ts t) (game_taps s))"
    by (simp add: image_image)
  show "chat_id ` set (leaderboard rng limit now s)
         = chat_id ` set (filter (\<lambda>t. since \<le> ts t) (game_taps s))"
    if "card (chat_id ` set (filter (\<lambda>t. since \<le> ts t) (game_taps s))) \<le> limit"
  proof -
    have "length ?rows \<le> limit" using that unfolding len .
    then have "set (take limit (order_by_score_desc ?rows)) = set ?rows"
      by (rule ranked_take(6))
    then show ?thesis unfolding L using ids_set by simp
  qed
  show "score x = Some (window_score_spec s since (chat_id x))
         \<and> (\<exists>t \<in> set (game_taps s). chat_id t = chat_id x \<and> since \<le> ts t)"
    if "x \<in> set (leaderboard rng limit now s)"
  proof -
    have "x \<in> set ?rows" using that ranked_take(3) [of limit ?rows] unfolding L by blast
    then show ?thesis by auto
  qed
  show "Some (window_score_spec s since (chat_id t)) < score x
         \<or> (Some (window_score_spec s since (chat_id t)) = score x \<and> chat_id x \<le> chat_id t)"
    if "x \<in> set (leaderboard rng limit now s)" "t \<in> set (game_taps s)" "since \<le> ts t"
      "chat_id t \<notin> chat_id ` set (leaderboard rng limit now s)"
  proof -
    have y: "?mk (chat_id t) \<in> set ?rows" using that(2,3) by auto
    have "?mk (chat_id t) \<notin> set (leaderboard rng limit now s)"
      using that(4) by force
    then have "ranks_before x (?mk (chat_id t))"
      using ranked_take(4) [of x limit ?rows "?mk (chat_id t)"] that(1) y unfolding L by blast
    then show ?thesis by (simp add: ranks_before_def)
  qed
qed

lemma leaderboard_all_rows:
  shows "length (leaderboard ''all'' limit now s) = min limit (length (game_users s))"
    and "distinct (map chat_id (game_users s)) \<Longrightarrow>
         distinct (map chat_id (leaderboard ''all'' limit now s))"
    and "length (game_users s) \<le> limit \<Longrightarrow>
         chat_id ` set (leaderboard ''all'' limit now s) = chat_id ` set (game_users s)"
    and "x \<in> set (leaderboard ''all'' limit now s) \<Longrightarrow>
           \<exists>g \<in> set (game_users s). chat_id x = chat_id g \<and> score x = coins g"
    and "x \<in> set (leaderboard ''all'' limit now s) \<Longrightarrow> g \<in> set (game_users s) \<Longrightarrow>
         chat_id g \<notin> chat_id ` set (leaderboard ''all'' limit now s) \<Longrightarrow>
         coins g < score x \<or> (coins g = score x \<and> chat_id x \<le> chat_id g)"
proof -
  let ?mk = "\<lambda>g. \<lparr>chat_id = chat_id g, username = joined_username s (chat_id g),
                   score = coins g\<rparr>"
  let ?rows = "map ?mk (game_users s)"
  note L = leaderboard_all [of limit now s]
  have ids: "map chat_id ?rows = map chat_id (game_users s)" by (simp add: comp_def)
  show "length (leaderboard ''all'' limit now s) = min limit (length (game_users s))"
    unfolding L ranked_take(2) by simp
  show "distinct (map chat_id (leaderboard ''all'' limit now s))"
    if "distinct (map chat_id (game_users s))"
    unfolding L using that by (intro ranked_take(5)) (simp only: ids)
  show "chat_id ` set (leaderboard ''all'' limit now s) = chat_id ` set (game_users s)"
    if "length (game_users s) \<le> limit"
  proof -
    have "length ?rows \<le> limit" using that by simp
    then have "set (take limit (order_by_score_desc ?rows)) = set ?rows"
      by (rule ranked_take(6))
    then show ?thesis unfolding L by (simp add: image_image)
  qed
  show "\<exists>g \<in> set (game_users s). chat_id x = chat_id g \<and> score x = coins g"
    if "x \<in> set (leaderboard ''all'' limit now s)"
  proof -
    have "x \<in> set ?rows" using that ranked_take(3) [of limit ?rows] unfolding L by blast
    then show ?thesis by auto
  qed
  show "coins g < score x \<or> (coins g = score x \<and> chat_id x \<le> chat_id g)"
    if "x \<in> set (leaderboard ''all'' limit now s)" "g \<in> set (game_users s)"
      "chat_id g \<notin> chat_id ` set (leaderboard ''all'' limit now s)"
  proof -
    have y: "?mk g \<in> set ?rows" using that(2) by auto
    have "?mk g \<notin> set (leaderboard ''all'' limit now s)"
      using that(3) by force
    then have "ranks_before x (?mk g)"
      using ranked_take(4) [of x limit ?rows "?mk g"] that(1) y unfolding L by blast
    then show ?thesis by (simp add: ranks_before_def)
  qed
qed

lemma leaderboard_sorted_bounded:
  "length (leaderboard rng limit now s) \<le> limit"
  "sorted_wrt ranks_before (leaderboard rng limit now s)"
  "sorted_wrt (\<lambda>a b. score b \<le> score a) (leaderboard rng limit now s)"
proof -
  show "length (leaderboard rng limit now s) \<le> limit"
    by (cases "rng = ''all''") (simp_all add: leaderboard_all leaderboard_window)
  show r: "sorted_wrt ranks_before (leaderboard rng limit now s)"
  proof (cases "rng = ''all''")
    case True
    show ?thesis unfolding True leaderboard_all by (rule ranked_take(1))
  next
    case False
    show ?thesis unfolding leaderboard_window [OF False] by (rule ranked_take(1))
  qed
  show "sorted_wrt (\<lambda>a b. score b \<le> score a) (leaderboard rng limit now s)"
    using r by (rule sorted_wrt_mono_rel [rotated]) (rule ranks_before_score)
qed

lemma old_tap_outside_window:
  assumes "rng \<noteq> ''all''" and "t0 < now - days 7"
  shows "leaderboard rng limit now (add_tap cid d n t0 s) = leaderboard rng limit now s"
proof -
  have "t0 < now - days 1" using assms(2) by (simp add: days_def seconds_def)
  then have f: "filter (\<lambda>t. (if rng = ''day'' then now - days 1 else now - days 7) \<le> ts t)
        (game_taps (add_tap cid d n t0 s))
      = filter (\<lambda>t. (if rng = ''day'' then now - days 1 else now - days 7) \<le> ts t)
        (game_taps s)"
    using assms(2) by (simp add: add_tap_frame)
  have w: "window_score_spec (add_tap cid d n t0 s)
        (if rng = ''day'' then now - days 1 else now - days 7) c
      = window_score_spec s (if rng = ''day'' then now - days 1 else now - days 7) c" for c
    using assms(2) \<open>t0 < now - days 1\<close> by (simp add: window_score_spec_def add_tap_frame)
  have u: "joined_username (add_tap cid d n t0 s) c = joined_username s c" for c
    by (simp add: joined_username_def add_tap_frame)
  show ?thesis
    unfolding leaderboard_window [OF assms(1)] f by (simp only: w u)
qed

text \<open>
  Claim C9. A leaderboard answer lists accounts in descending order of score, the lower
  \<^verbatim>\<open>chat_id\<close> first at a tie, and holds exactly as many rows as the limit allows
  (\<open>api_leaderboard\<close> asks for 50). For \<^verbatim>\<open>all\<close> that is \<open>min limit\<close> of the number of accounts: each
  row carries an account's coins, different accounts give different rows, every account is
  listed when the limit allows it, every account left out ranks after every account listed, and
  the answer depends neither on the time nor on the scoring events. For \<^verbatim>\<open>day\<close> and \<^verbatim>\<open>week\<close>
  (\<open>since\<close> is \<open>now\<close> minus 1 or 7 days) that is \<open>min limit\<close> of the number of accounts with an
  event at or after \<open>since\<close>: there is one row for each such account, its score is the sum of
  that account's deltas at or after \<open>since\<close>, every such account left out ranks after every
  account listed, and dropping the older events changes nothing. An event recorded more than 7
  days before \<open>now\<close> changes neither windowed answer, while its delta has been added to the coins
  that \<^verbatim>\<open>all\<close> ranks.
\<close>

theorem leaderboard_ranking:
  "length (leaderboard rng limit now s) \<le> limit
   \<and> sorted_wrt (\<lambda>a b. score b \<le> score a) (leaderboard rng limit now s)
   \<and> sorted_wrt ranks_before (leaderboard rng limit now s)
   \<and> length (api_leaderboard rng now s) \<le> 50
   \<and> api_leaderboard rng now s
       = leaderboard (if rng = ''day'' \<or> rng = ''week'' then rng else ''all'') 50 now s
   \<and> length (leaderboard ''all'' limit now s) = min limit (length (game_users s))
   \<and> (distinct (map chat_id (game_users s)) \<longrightarrow>
        distinct (map chat_id (leaderboard ''all'' limit now s)))
   \<and> (length (game_users s) \<le> limit \<longrightarrow>
        chat_id ` set (leaderboard ''all'' limit now s) = chat_id ` set (game_users s))
   \<and> (\<forall>x \<in> set (leaderboard ''all'' limit now s).
        (\<exists>g \<in> set (game_users s). chat_id x = chat_id g \<and> score x = coins g)
      \<and> (\<forall>g \<in> set (game_users s).
            chat_id g \<notin> chat_id ` set (leaderboard ''all'' limit now s) \<longrightarrow>
            coins g < score x \<or> (coins g = score x \<and> chat_id x \<le> chat_id g)))
   \<and> leaderboard ''all'' limit now s = leaderboard ''all'' limit now' (s\<lparr>game_taps := taps'\<rparr>)
   \<and> (rng \<noteq> ''all'' \<and> since = (if rng = ''day'' then now - days 1 else now - days 7) \<longrightarrow>
        length (leaderboard rng limit now s)
          = min limit (card (chat_id ` set (filter (\<lambda>t. since \<le> ts t) (game_taps s))))
      \<and> distinct (map chat_id (leaderboard rng limit now s))
      \<and> (card (chat_id ` set (filter (\<lambda>t. since \<le> ts t) (game_taps s))) \<le> limit \<longrightarrow>
           chat_id ` set (leaderboard rng limit now s)
           = chat_id ` set (filter (\<lambda>t. since \<le> ts t) (game_taps s)))
      \<and> (\<forall>x \<in> set (leaderboard rng limit now s).
           score x = Some (window_score_spec s since (chat_id x))
         \<and> (\<exists>t \<in> set (game_taps s). chat_id t = chat_id x \<and> since \<le> ts t)
         \<and> (\<forall>t \<in> set (game_taps s).
               since \<le> ts t \<and> chat_id t \<notin> chat_id ` set (leaderboard rng limit now s) \<longrightarrow>
               Some (window_score_spec s since (chat_id t)) < score x
               \<or> (Some (window_score_spec s since (chat_id t)) = score x
                   \<and> chat_id x \<le> chat_id t)))
      \<and> leaderboard rng limit now
            (s\<lparr>game_taps := filter (\<lambda>t. since \<le> ts t) (game_taps s)\<rparr>)
          = leaderboard rng limit now s)
   \<and> (db_fetchone cid (game_users s) = Some gu \<and> t0 < now - days 7 \<longrightarrow>
        leaderboard ''day'' limit now (add_tap cid d n t0 s) = leaderboard ''day'' limit now s
      \<and> leaderboard ''week'' limit now (add_tap cid d n t0 s) = leaderboard ''week'' limit now s
      \<and> (\<exists>r. db_fetchone cid (game_users (add_tap cid d n t0 s)) = Some r
              \<and> coins r = Some (coalesce (coins gu) 0 + d)))"
proof (intro conjI impI ballI)
  show "length (leaderboard rng limit now s) \<le> limit"
    by (rule leaderboard_sorted_bounded)
  show "sorted_wrt (\<lambda>a b. score b \<le> score a) (leaderboard rng limit now s)"
    by (rule leaderboard_sorted_bounded)
  show "sorted_wrt ranks_before (leaderboard rng limit now s)"
    by (rule leaderboard_sorted_bounded)
  show "length (api_leaderboard rng now s) \<le> 50"
    unfolding api_leaderboard_def by (rule leaderboard_sorted_bounded)
  show "api_leaderboard rng now s
       = leaderboard (if rng = ''day'' \<or> rng = ''week'' then rng else ''all'') 50 now s"
    by (simp add: api_leaderboard_def)
  show "length (leaderboard ''all'' limit now s) = min limit (length (game_users s))"
    by (rule leaderboard_all_rows(1))
  show "distinct (map chat_id (leaderboard ''all'' limit now s))"
    if "distinct (map chat_id (game_users s))"
    using that by (rule leaderboard_all_rows(2))
  show "chat_id ` set (leaderboard ''all'' limit now s) = chat_id ` set (game_users s)"
    if "length (game_users s) \<le> limit"
    using that by (rule leaderboard_all_rows(3))
  show "leaderboard ''all'' limit now s = leaderboard ''all'' limit now' (s\<lparr>game_taps := taps'\<rparr>)"
    by (simp add: leaderboard_all joined_username_taps)
next
  fix x assume x: "x \<in> set (leaderboard ''all'' limit now s)"
  show "\<exists>g \<in> set (game_users s). chat_id x = chat_id g \<and> score x = coins g"
    using x by (rule leaderboard_all_rows(4))
  fix g assume "g \<in> set (game_users s)"
    and "chat_id g \<notin> chat_id ` set (leaderboard ''all'' limit now s)"
  then show "coins g < score x \<or> (coins g = score x \<and> chat_id x \<le> chat_id g)"
    using x by (intro leaderboard_all_rows(5))
next
  assume a: "rng \<noteq> ''all'' \<and> since = (if rng = ''day'' then now - days 1 else now - days 7)"
  then have r: "rng \<noteq> ''all''"
    and si: "since = (if rng = ''day'' then now - days 1 else now - days 7)"
    by simp_all
  note w = leaderboard_window_rows [OF r si, where limit = limit and s = s]
  show "length (leaderboard rng limit now s)
          = min limit (card (chat_id ` set (filter (\<lambda>t. since \<le> ts t) (game_taps s))))"
    by (rule w(2))
  show "distinct (map chat_id (leaderboard rng limit now s))" by (rule w(1))
  show "chat_id ` set (leaderboard rng limit now s)
           = chat_id ` set (filter (\<lambda>t. since \<le> ts t) (game_taps s))"
    if "card (chat_id ` set (filter (\<lambda>t. since \<le> ts t) (game_taps s))) \<le> limit"
    using that by (rule w(3))
  show "leaderboard rng limit now
            (s\<lparr>game_taps := filter (\<lambda>t. since \<le> ts t) (game_taps s)\<rparr>)
          = leaderboard rng limit now s"
    using r si by (rule leaderboard_window_filtered)
  fix x assume x: "x \<in> set (leaderboard rng limit now s)"
  show "score x = Some (window_score_spec s since (chat_id x))"
    and "\<exists>t \<in> set (game_taps s). chat_id t = chat_id x \<and> since \<le> ts t"
    using w(4) [OF x] by simp_all
  fix t assume "t \<in> set (game_taps s)"
    and "since \<le> ts t \<and> chat_id t \<notin> chat_id ` set (leaderboard rng limit now s)"
  then show "Some (window_score_spec s since (chat_id t)) < score x
               \<or> (Some (window_score_spec s since (chat_id t)) = score x
                   \<and> chat_id x \<le> chat_id t)"
    using x by (intro w(5)) simp_all
next
  assume a: "db_fetchone cid (game_users s) = Some gu \<and> t0 < now - days 7"
  show "leaderboard ''day'' limit now (add_tap cid d n t0 s) = leaderboard ''day'' limit now s"
    using a by (intro old_tap_outside_window) simp_all
  show "leaderboard ''week'' limit now (add_tap cid d n t0 s) = leaderboard ''week'' limit now s"
    using a by (intro old_tap_outside_window) simp_all
  have "db_fetchone cid (game_users (add_tap cid d n t0 s))
      = Some (gu\<lparr>coins := Some (coalesce (coins gu) 0 + d), last_tap_at := Some t0\<rparr>)"
    unfolding add_tap_update update_game_user_fields_def
    using a by (simp add: db_fetchone_map)
  then show "\<exists>r. db_fetchone cid (game_users (add_tap cid d n t0 s)) = Some r
              \<and> coins r = Some (coalesce (coins gu) 0 + d)"
    by simp
qed

theorem leaderboard_ranking_witness:
  "db_fetchone 1 (game_users
      ((engine_of [example_row 3 3 500 0, example_row 1 2 500 0, example_row 2 3 500 0])
         \<lparr>game_taps := [\<lparr>chat_id = 3, ts = 829440000000, delta = 3, nonce = ''d''\<rparr>,
                        \<lparr>chat_id = 1, ts = 432000000000, delta = 2, nonce = ''b''\<rparr>,
                        \<lparr>chat_id = 2, ts = 820800000000, delta = 3, nonce = ''c''\<rparr>]\<rparr>))
     = Some (example_row 1 2 500 0)
   \<and> (86400000000::int) < 864000000000 - days 7
   \<and> ''day'' \<noteq> ''all'' \<and> ''week'' \<noteq> ''all''
   \<and> distinct (map chat_id (game_users
      ((engine_of [example_row 3 3 500 0, example_row 1 2 500 0, example_row 2 3 500 0])
         \<lparr>game_taps := [\<lparr>chat_id = 3, ts = 829440000000, delta = 3, nonce = ''d''\<rparr>,
                        \<lparr>chat_id = 1, ts = 432000000000, delta = 2, nonce = ''b''\<rparr>,
                        \<lparr>chat_id = 2, ts = 820800000000, delta = 3, nonce = ''c''\<rparr>]\<rparr>)))
   \<and> map (\<lambda>x. (chat_id x, score x)) (leaderboard ''day'' 50 864000000000
        (add_tap 1 5 ''old'' 86400000000
          ((engine_of [example_row 3 3 500 0, example_row 1 2 500 0, example_row 2 3 500 0])
             \<lparr>game_taps := [\<lparr>chat_id = 3, ts = 829440000000, delta = 3, nonce = ''d''\<rparr>,
                            \<lparr>chat_id = 1, ts = 432000000000, delta = 2, nonce = ''b''\<rparr>,
                            \<lparr>chat_id = 2, ts = 820800000000, delta = 3, nonce = ''c''\<rparr>]\<rparr>)))
     = [(2, Some 3), (3, Some 3)]
   \<and> map (\<lambda>x. (chat_id x, score x)) (leaderboard ''week'' 50 864000000000
        (add_tap 1 5 ''old'' 86400000000
          ((engine_of [example_row 3 3 500 0, example_row 1 2 500 0, example_row 2 3 500 0])
             \<lparr>game_taps := [\<lparr>chat_id = 3, ts = 829440000000, delta = 3, nonce = ''d''\<rparr>,
                            \<lparr>chat_id = 1, ts = 432000000000, delta = 2, nonce = ''b''\<rparr>,
                            \<lparr>chat_id = 2, ts = 820800000000, delta = 3, nonce = ''c''\<rparr>]\<rparr>)))
     = [(2, Some 3), (3, Some 3), (1, Some 2)]
   \<and> map (\<lambda>x. (chat_id x, score x)) (leaderboard ''all'' 50 864000000000
        (add_tap 1 5 ''old'' 86400000000
          ((engine_of [example_row 3 3 500 0, example_row 1 2 500 0, example_row 2 3 500 0])
             \<lparr>game_taps := [\<lparr>chat_id = 3, ts = 829440000000, delta = 3, nonce = ''d''\<rparr>,
                            \<lparr>chat_id = 1, ts = 432000000000, delta = 2, nonce = ''b''\<rparr>,
                            \<lparr>chat_id = 2, ts = 820800000000, delta = 3, nonce = ''c''\<rparr>]\<rparr>)))
     = [(1, Some 7), (2, Some 3), (3, Some 3)]
   \<and> map (\<lambda>x. (chat_id x, score x)) (leaderboard ''all'' 2 864000000000
        (add_tap 1 5 ''old'' 86400000000
          ((engine_of [example_row 3 3 500 0, example_row 1 2 500 0, example_row 2 3 500 0])
             \<lparr>game_taps := [\<lparr>chat_id = 3, ts = 829440000000, delta = 3, nonce = ''d''\<rparr>,
                            \<lparr>chat_id = 1, ts = 432000000000, delta = 2, nonce = ''b''\<rparr>,
                            \<lparr>chat_id = 2, ts = 820800000000, delta = 3, nonce = ''c''\<rparr>]\<rparr>)))
     = [(1, Some 7), (2, Some 3)]"
proof -
  let ?s0 = "(engine_of [example_row 3 3 500 0, example_row 1 2 500 0, example_row 2 3 500 0])
         \<lparr>game_taps := [\<lparr>chat_id = 3, ts = 829440000000, delta = 3, nonce = ''d''\<rparr>,
                        \<lparr>chat_id = 1, ts = 432000000000, delta = 2, nonce = ''b''\<rparr>,
                        \<lparr>chat_id = 2, ts = 820800000000, delta = 3, nonce = ''c''\<rparr>]\<rparr>"
  have h: "db_fetchone 1 (game_users ?s0) = Some (example_row 1 2 500 0)
      \<and> (86400000000::int) < 864000000000 - days 7"
    by (simp add: engine_eval)
  have dist: "distinct (map chat_id (game_users ?s0))"
    by (simp add: engine_eval)
  note t = leaderboard_ranking [where s = ?s0 and cid = 1 and gu = "example_row 1 2 500 0"
      and ?t0.0 = 86400000000 and now = 864000000000 and limit = 50 and d = 5 and n = "''old''"
      and rng = "''day''" and since = "864000000000 - days 1" and now' = 0 and taps' = "[]"]
  have old: "leaderboard ''day'' 50 864000000000 (add_tap 1 5 ''old'' 86400000000 ?s0)
        = leaderboard ''day'' 50 864000000000 ?s0"
    "leaderboard ''week'' 50 864000000000 (add_tap 1 5 ''old'' 86400000000 ?s0)
        = leaderboard ''week'' 50 864000000000 ?s0"
    using t h by blast+
  have day: "map (\<lambda>x. (chat_id x, score x)) (leaderboard ''day'' 50 864000000000 ?s0)
      = [(2, Some 3), (3, Some 3)]"
    by (simp add: leaderboard_def engine_eval order_by_score_desc_def
        joined_username_def)
  have week: "map (\<lambda>x. (chat_id x, score x)) (leaderboard ''week'' 50 864000000000 ?s0)
      = [(2, Some 3), (3, Some 3), (1, Some 2)]"
    by (simp add: leaderboard_def engine_eval order_by_score_desc_def
        joined_username_def)
  have all: "map (\<lambda>x. (chat_id x, score x)) (leaderboard ''all'' 50 864000000000
        (add_tap 1 5 ''old'' 86400000000 ?s0)) = [(1, Some 7), (2, Some 3), (3, Some 3)]"
    "map (\<lambda>x. (chat_id x, score x)) (leaderboard ''all'' 2 864000000000
        (add_tap 1 5 ''old'' 86400000000 ?s0)) = [(1, Some 7), (2, Some 3)]"
    by (simp_all add: leaderboard_def engine_eval order_by_score_desc_def
        joined_username_def)
  show ?thesis
    using h dist all unfolding old day week by simp
qed

subsection \<open>The bound on the nonce cache\<close>

lemma card_last_hundred:
  "card (set (drop (length l - 100) l)) \<le> 100"
proof -
  have "card (set (drop (length l - 100) l)) \<le> length (drop (length l - 100) l)"
    by (rule card_length)
  also have "\<dots> = length l - (length l - 100)"
    by (rule length_drop)
  also have "\<dots> \<le> 100"
    by arith
  finally show ?thesis .
qed

lemma newest_can_be_dropped:
  assumes "finite S" and "n \<in> S" and "card S > 200"
  shows "\<exists>l. distinct l \<and> set l = S \<and> n \<notin> set (drop (length l - 100) l)"
proof -
  from assms(1) have "finite (S - {n})" by simp
  then have "\<exists>l. set l = S - {n} \<and> distinct l"
    by (rule finite_distinct_list)
  then obtain l where l: "set l = S - {n}" "distinct l"
    by (elim exE conjE)
  have d: "distinct (n # l)" and st: "set (n # l) = S"
    using l assms(2) by auto
  have "card (set (n # l)) = length (n # l)"
    using d by (rule distinct_card)
  then have "Suc (length l) = card S"
    unfolding st by simp
  then have "100 \<le> length l" using assms(3) by arith
  then have k: "length (n # l) - 100 = Suc (length l - 100)"
    by (simp only: list.size(4) Suc_diff_le add_Suc_right add_0_right)
  have "set (drop (length (n # l) - 100) (n # l)) \<subseteq> set l"
    unfolding k by (simp add: set_drop_subset)
  then have "n \<notin> set (drop (length (n # l) - 100) (n # l))"
    using l(1) by blast
  with d st have "distinct (n # l) \<and> set (n # l) = S
      \<and> n \<notin> set (drop (length (n # l) - 100) (n # l))"
    by (intro conjI)
  then show ?thesis by (rule exI [of _ "n # l"])
qed

text \<open>
  Claim C10. After a tap that records its nonce, the account's cache is finite with at most 200
  entries. When the insertion makes it larger than 200 it is reset to the last 100 entries of
  the listing Python gives of the set: at most 100 entries, and exactly 100 of the previous
  entries when the listing is a proper one. When the insertion leaves it at 200 or fewer,
  nothing is evicted. The resulting cache is the same at any wall-clock time. And whenever the
  cache overflows there is a proper listing of the set under which the nonce just recorded is
  itself evicted.
\<close>

theorem nonce_cache_bounded:
  assumes "can_tap_now cid tick s = (True, s1)"
    and "n \<noteq> []" and "length n \<le> 200" and "n \<notin> recent_nonces s cid"
    and "finite (recent_nonces s cid)"
  shows "finite (recent_nonces (snd (api_tap cid n now tick lo s)) cid)
     \<and> card (recent_nonces (snd (api_tap cid n now tick lo s)) cid) \<le> 200
     \<and> recent_nonces (snd (api_tap cid n now' tick lo s)) cid
         = recent_nonces (snd (api_tap cid n now tick lo s)) cid
     \<and> (card (insert n (recent_nonces s cid)) \<le> 200 \<longrightarrow>
          recent_nonces (snd (api_tap cid n now tick lo s)) cid = insert n (recent_nonces s cid))
     \<and> (card (insert n (recent_nonces s cid)) > 200 \<longrightarrow>
          card (recent_nonces (snd (api_tap cid n now tick lo s)) cid) \<le> 100
        \<and> recent_nonces (snd (api_tap cid n now tick lo s)) cid
            = set (drop (length (lo (insert n (recent_nonces s cid))) - 100)
                     (lo (insert n (recent_nonces s cid))))
        \<and> (distinct (lo (insert n (recent_nonces s cid)))
            \<and> set (lo (insert n (recent_nonces s cid))) = insert n (recent_nonces s cid) \<longrightarrow>
              recent_nonces (snd (api_tap cid n now tick lo s)) cid
                \<subseteq> insert n (recent_nonces s cid)
            \<and> card (recent_nonces (snd (api_tap cid n now tick lo s)) cid) = 100)
        \<and> (\<exists>lo'. distinct (lo' (insert n (recent_nonces s cid)))
              \<and> set (lo' (insert n (recent_nonces s cid))) = insert n (recent_nonces s cid)
              \<and> n \<notin> recent_nonces (snd (api_tap cid n now tick lo' s)) cid))"
proof -
  let ?S = "insert n (recent_nonces s cid)"
  have cache: "recent_nonces (snd (api_tap cid n t tick f s)) cid =
      (if card ?S > 200 then set (drop (length (f ?S) - 100) (f ?S)) else ?S)" for t f
    by (rule api_tap_nonce_cache [OF assms(1-4), where now = t and lo = f,
          THEN conjunct2, THEN conjunct1])
  have fin: "finite ?S" using assms(5) by simp
  show ?thesis
  proof (intro conjI impI)
    show "finite (recent_nonces (snd (api_tap cid n now tick lo s)) cid)"
      unfolding cache using fin by simp
    show "card (recent_nonces (snd (api_tap cid n now tick lo s)) cid) \<le> 200"
    proof (cases "card ?S > 200")
      case True
      then have "recent_nonces (snd (api_tap cid n now tick lo s)) cid
          = set (drop (length (lo ?S) - 100) (lo ?S))"
        by (simp only: cache if_True)
      then show ?thesis using card_last_hundred [of "lo ?S"] by simp
    next
      case False
      then have "recent_nonces (snd (api_tap cid n now tick lo s)) cid = ?S"
        by (simp only: cache if_False)
      then show ?thesis using False by simp
    qed
    show "recent_nonces (snd (api_tap cid n now' tick lo s)) cid
         = recent_nonces (snd (api_tap cid n now tick lo s)) cid"
      unfolding cache ..
    show "recent_nonces (snd (api_tap cid n now tick lo s)) cid = ?S" if "card ?S \<le> 200"
      unfolding cache using that by simp
  next
    assume big: "card ?S > 200"
    show "card (recent_nonces (snd (api_tap cid n now tick lo s)) cid) \<le> 100"
      unfolding cache using big card_last_hundred [of "lo ?S"] by simp
    show "recent_nonces (snd (api_tap cid n now tick lo s)) cid
            = set (drop (length (lo ?S) - 100) (lo ?S))"
      unfolding cache using big by simp
    have "\<exists>l. distinct l \<and> set l = ?S \<and> n \<notin> set (drop (length l - 100) l)"
      using fin _ big by (rule newest_can_be_dropped) simp
    then obtain l where l: "distinct l" "set l = ?S" "n \<notin> set (drop (length l - 100) l)"
      by (elim exE conjE)
    have "n \<notin> recent_nonces (snd (api_tap cid n now tick (\<lambda>_. l) s)) cid"
      unfolding cache using big l(3) by simp
    then show "\<exists>lo'. distinct (lo' ?S) \<and> set (lo' ?S) = ?S
              \<and> n \<notin> recent_nonces (snd (api_tap cid n now tick lo' s)) cid"
      using l(1,2) by (intro exI [of _ "\<lambda>_. l"]) simp
  next
    assume big: "card ?S > 200"
      and v: "distinct (lo ?S) \<and> set (lo ?S) = ?S"
    show "recent_nonces (snd (api_tap cid n now tick lo s)) cid \<subseteq> ?S"
      unfolding cache using big v set_drop_subset [of "length (lo ?S) - 100" "lo ?S"] by simp
    have "length (lo ?S) = card ?S" using v distinct_card [of "lo ?S"] by simp
    then have "length (drop (length (lo ?S) - 100) (lo ?S)) = 100" using big by simp
    moreover have "distinct (drop (length (lo ?S) - 100) (lo ?S))" using v by simp
    ultimately have "card (set (drop (length (lo ?S) - 100) (lo ?S))) = 100"
      by (simp only: distinct_card)
    then show "card (recent_nonces (snd (api_tap cid n now tick lo s)) cid) = 100"
      unfolding cache using big by simp
  qed
qed


lemma two_hundred_nonces_facts:
  "distinct two_hundred_nonces" "length two_hundred_nonces = 200"
  "''b'' \<notin> set two_hundred_nonces"
proof -
  have "inj_on (\<lambda>i. replicate (Suc i) CHR ''a'') (set [0..<200])"
    by (rule inj_onI) (metis length_replicate nat.inject)
  then show "distinct two_hundred_nonces"
    unfolding two_hundred_nonces_def by (simp only: distinct_map distinct_upt simp_thms)
  show "length two_hundred_nonces = 200"
    unfolding two_hundred_nonces_def by simp
  show "''b'' \<notin> set two_hundred_nonces"
    unfolding two_hundred_nonces_def by (auto simp del: upt_Suc)
qed

theorem nonce_cache_bounded_witness:
  "can_tap_now 1 0 (engine0\<lparr>recent_nonces := (\<lambda>_. set two_hundred_nonces)\<rparr>)
     = (True, engine0\<lparr>recent_nonces := (\<lambda>_. set two_hundred_nonces),
                      rate_windows := (\<lambda>_. [])(1 := [0])\<rparr>)
   \<and> ''b'' \<noteq> [] \<and> length ''b'' \<le> 200
   \<and> ''b'' \<notin> recent_nonces (engine0\<lparr>recent_nonces := (\<lambda>_. set two_hundred_nonces)\<rparr>) 1
   \<and> finite (recent_nonces (engine0\<lparr>recent_nonces := (\<lambda>_. set two_hundred_nonces)\<rparr>) 1)
   \<and> card (insert ''b''
        (recent_nonces (engine0\<lparr>recent_nonces := (\<lambda>_. set two_hundred_nonces)\<rparr>) 1)) > 200
   \<and> distinct (''b'' # two_hundred_nonces)
   \<and> set (''b'' # two_hundred_nonces) = insert ''b''
        (recent_nonces (engine0\<lparr>recent_nonces := (\<lambda>_. set two_hundred_nonces)\<rparr>) 1)
   \<and> card (recent_nonces (snd (api_tap 1 ''b'' 0 0 (\<lambda>_. ''b'' # two_hundred_nonces)
        (engine0\<lparr>recent_nonces := (\<lambda>_. set two_hundred_nonces)\<rparr>))) 1) = 100
   \<and> recent_nonces (snd (api_tap 1 ''b'' 0 0 (\<lambda>_. ''b'' # two_hundred_nonces)
        (engine0\<lparr>recent_nonces := (\<lambda>_. set two_hundred_nonces)\<rparr>))) 1
       = set (drop 100 two_hundred_nonces)
   \<and> ''b'' \<notin> recent_nonces (snd (api_tap 1 ''b'' 0 0 (\<lambda>_. ''b'' # two_hundred_nonces)
        (engine0\<lparr>recent_nonces := (\<lambda>_. set two_hundred_nonces)\<rparr>))) 1"
proof -
  let ?s = "engine0\<lparr>recent_nonces := (\<lambda>_. set two_hundred_nonces)\<rparr>"
  let ?lo = "\<lambda>_::string set. ''b'' # two_hundred_nonces"
  note f = two_hundred_nonces_facts
  have c: "can_tap_now 1 0 ?s = (True, ?s\<lparr>rate_windows := (\<lambda>_. [])(1 := [0])\<rparr>)"
    by (simp add: can_tap_now_window engine0_def)
  have n: "''b'' \<noteq> []" "length ''b'' \<le> 200" "''b'' \<notin> recent_nonces ?s 1"
    using f(3) by simp_all
  have fin: "finite (recent_nonces ?s 1)" by simp
  have "card (set two_hundred_nonces) = 200" using f(1,2) distinct_card by fastforce
  then have big: "card (insert ''b'' (recent_nonces ?s 1)) > 200"
    using f(3) by simp
  have v: "distinct (?lo (insert ''b'' (recent_nonces ?s 1)))
        \<and> set (?lo (insert ''b'' (recent_nonces ?s 1))) = insert ''b'' (recent_nonces ?s 1)"
    using f(1,3) by simp
  note t = nonce_cache_bounded [OF c n fin, where now = 0 and now' = 0 and lo = ?lo]
  have card: "card (recent_nonces (snd (api_tap 1 ''b'' 0 0 ?lo ?s)) 1) = 100"
    using t big v by blast
  have "recent_nonces (snd (api_tap 1 ''b'' 0 0 ?lo ?s)) 1
      = set (drop (length (?lo (insert ''b'' (recent_nonces ?s 1))) - 100)
                     (?lo (insert ''b'' (recent_nonces ?s 1))))"
    using t big by blast
  then have eq: "recent_nonces (snd (api_tap 1 ''b'' 0 0 ?lo ?s)) 1
      = set (drop 100 two_hundred_nonces)"
    by (simp add: f(2))
  have out: "''b'' \<notin> set (drop 100 two_hundred_nonces)"
    using f(3) set_drop_subset [of 100 two_hundred_nonces] by blast
  show ?thesis
    using c n fin big v card eq out by simp
qed

end
